theory Spec2Isabelle
  imports Complex_Main
begin

section \<open>Python values and strings\<close>

text \<open>
  The programs of the repository handle JSON-like values (metadata of a match, bodies of
  HTTP responses, records of the embeddings file) and SDK objects that carry attributes.
  A value is one of Python's \<open>None\<close>, a bool, an int, a float, a str, a list, a dict with
  string keys (an association list, the first binding of a key being the one in force),
  or an object with named attributes.

  A \<open>string\<close> stands for a Python \<open>str\<close> with one \<open>char\<close> per character: the model covers
  the characters with a code point below 256.
\<close>

datatype pyval =
    PNone
  | PBool bool
  | PInt int
  | PFloat real
  | PStr string
  | PList "pyval list"
  | PDict "(string \<times> pyval) list"
  | PObj "(string \<times> pyval) list"

text \<open>The exceptions that the modelled code can raise.\<close>

datatype py_exn =
    TypeError
  | AttributeError
  | KeyError
  | IndexError
  | ValueError
  | RuntimeError
  | OverflowError
  | JSONDecodeError
  | ConnectionError
  | HTTPError int
  | UnexpectedResponse pyval

text \<open>Truth value of an object, as \<open>not\<close>, \<open>or\<close> and \<open>if\<close> test it.\<close>

fun truthy :: "pyval \<Rightarrow> bool" where
  "truthy PNone = False"
| "truthy (PBool b) = b"
| "truthy (PInt i) = (i \<noteq> 0)"
| "truthy (PFloat x) = (x \<noteq> 0)"
| "truthy (PStr s) = (s \<noteq> [])"
| "truthy (PList xs) = (xs \<noteq> [])"
| "truthy (PDict kvs) = (kvs \<noteq> [])"
| "truthy (PObj attrs) = True"

text \<open>\<open>a or b\<close>\<close>

definition py_or :: "pyval \<Rightarrow> pyval \<Rightarrow> pyval" where
  "py_or a b = (if truthy a then a else b)"

text \<open>\<open>d.get(k, default)\<close> on the bindings of a dict\<close>

definition dict_get :: "(string \<times> pyval) list \<Rightarrow> string \<Rightarrow> pyval \<Rightarrow> pyval" where
  "dict_get kvs k dflt = (case map_of kvs k of Some v \<Rightarrow> v | None \<Rightarrow> dflt)"

text \<open>
  \<open>getattr(v, name, default)\<close>: an object yields its attribute; the other values have none
  of the attributes the code asks for (\<open>matches\<close>, \<open>id\<close>, \<open>score\<close>, \<open>metadata\<close>,
  \<open>preview\<close>, \<open>text\<close>).
\<close>

fun py_getattr :: "pyval \<Rightarrow> string \<Rightarrow> pyval \<Rightarrow> pyval" where
  "py_getattr (PObj attrs) name dflt = dict_get attrs name dflt"
| "py_getattr _ name dflt = dflt"

text \<open>\<open>len(v)\<close>\<close>

fun py_len :: "pyval \<Rightarrow> py_exn + int" where
  "py_len (PStr s) = Inr (int (length s))"
| "py_len (PList xs) = Inr (int (length xs))"
| "py_len (PDict kvs) = Inr (int (length kvs))"
| "py_len _ = Inl TypeError"

text \<open>\<open>xs[:n]\<close> on a sequence: a negative \<open>n\<close> counts from the end.\<close>

definition slice_to :: "'a list \<Rightarrow> int \<Rightarrow> 'a list" where
  "slice_to xs n = (if 0 \<le> n then take (nat n) xs else take (length xs - nat (- n)) xs)"

text \<open>\<open>v[:n]\<close> on a value: only strings and lists can be sliced.\<close>

fun py_slice_to :: "pyval \<Rightarrow> int \<Rightarrow> py_exn + pyval" where
  "py_slice_to (PStr s) n = Inr (PStr (slice_to s n))"
| "py_slice_to (PList xs) n = Inr (PList (slice_to xs n))"
| "py_slice_to _ n = Inl TypeError"

text \<open>
  The characters that \<open>str.strip()\<close> and \<open>str.split()\<close> take for whitespace, among the
  code points below 256: tab, line feed, vertical tab, form feed, carriage return, the
  four separators 28 to 31, space, next line (133) and no-break space (160).
\<close>

definition is_space :: "char \<Rightarrow> bool" where
  "is_space c = ((of_char c :: nat) \<in> {9, 10, 11, 12, 13, 28, 29, 30, 31, 32, 133, 160})"

text \<open>\<open>s.strip()\<close>\<close>

definition py_strip :: "string \<Rightarrow> string" where
  "py_strip s = rev (dropWhile is_space (rev (dropWhile is_space s)))"

text \<open>\<open>sep.join(ws)\<close> on strings\<close>

fun join :: "string \<Rightarrow> string list \<Rightarrow> string" where
  "join sep [] = []"
| "join sep [w] = w"
| "join sep (w # v # ws) = w @ sep @ join sep (v # ws)"

text \<open>The string of a value that is a \<open>str\<close>, if it is one.\<close>

fun str_of :: "pyval \<Rightarrow> string option" where
  "str_of (PStr s) = Some s"
| "str_of _ = None"

text \<open>\<open>sep.join(parts)\<close> on values: an item that is not a \<open>str\<close> raises \<open>TypeError\<close>.\<close>

definition py_join :: "string \<Rightarrow> pyval list \<Rightarrow> py_exn + string" where
  "py_join sep parts =
     (if list_all (\<lambda>p. str_of p \<noteq> None) parts
      then Inr (join sep (map (\<lambda>p. the (str_of p)) parts))
      else Inl TypeError)"

section \<open>The context assembler (app.py)\<close>

text \<open>\<open>meta = m.get("metadata", {}) or {}\<close>: a match that is not a dict has no \<open>get\<close>.\<close>

fun match_meta :: "pyval \<Rightarrow> py_exn + pyval" where
  "match_meta (PDict d) = Inr (py_or (dict_get d ''metadata'' (PDict [])) (PDict []))"
| "match_meta _ = Inl AttributeError"

text \<open>
  The display text of a metadata value (lines 119 to 130 of app.py): the fields of a dict
  in their priority order, the attributes \<open>preview\<close>, \<open>text\<close> of any other value and,
  when this gives nothing, the trimmed metadata itself when it is a non-blank string.
\<close>

definition select_preview :: "pyval \<Rightarrow> pyval" where
  "select_preview meta =
     (let preview =
        (case meta of
           PDict d \<Rightarrow>
             py_or (dict_get d ''preview'' PNone)
               (py_or (dict_get d ''text'' PNone)
                 (py_or (dict_get d ''content'' PNone)
                   (py_or (dict_get d ''chunk'' PNone) (PStr ''''))))
         | _ \<Rightarrow> py_or (py_getattr meta ''preview'' (PStr '''')) (py_getattr meta ''text'' (PStr '''')))
      in if \<not> truthy preview
         then (case meta of
                 PStr s \<Rightarrow> if py_strip s \<noteq> [] then PStr (py_strip s) else preview
               | _ \<Rightarrow> preview)
         else preview)"

text \<open>
  The loop of \<open>build_context_from_matches\<close> over the matches, with the list \<open>parts\<close> and
  the running count \<open>total\<close> (here \<open>tot\<close>): a match without text is passed over (\<open>continue\<close>), a text
  that goes over the budget is cut to what remains and ends the loop (\<open>break\<close>).
\<close>

fun context_parts :: "pyval list \<Rightarrow> int \<Rightarrow> pyval list \<Rightarrow> int \<Rightarrow> py_exn + pyval list" where
  "context_parts [] max_chars parts tot = Inr parts"
| "context_parts (m # ms) max_chars parts tot =
     (case match_meta m of
        Inl e \<Rightarrow> Inl e
      | Inr meta \<Rightarrow>
          (let preview = select_preview meta in
           if \<not> truthy preview then context_parts ms max_chars parts tot
           else (case py_len preview of
                   Inl e \<Rightarrow> Inl e
                 | Inr n \<Rightarrow>
                     if tot + n > max_chars
                     then (case py_slice_to preview (max_chars - tot) of
                             Inl e \<Rightarrow> Inl e
                           | Inr trunc \<Rightarrow> Inr (parts @ [trunc]))
                     else context_parts ms max_chars (parts @ [preview]) (tot + n))))"

text \<open>\<open>build_context_from_matches(matches, max_chars)\<close>\<close>

definition build_context_from_matches :: "pyval list \<Rightarrow> int \<Rightarrow> py_exn + string" where
  "build_context_from_matches matches max_chars =
     (case context_parts matches max_chars [] 0 of
        Inl e \<Rightarrow> Inl e
      | Inr parts \<Rightarrow>
          (case py_join ''\<newline>\<newline>'' parts of
             Inl e \<Rightarrow> Inl e
           | Inr s \<Rightarrow> Inr (py_strip s)))"

text \<open>The length that \<open>len\<close> gives for a sized value, and 0 for the others.\<close>

fun part_len :: "pyval \<Rightarrow> int" where
  "part_len (PStr s) = int (length s)"
| "part_len (PList xs) = int (length xs)"
| "part_len (PDict kvs) = int (length kvs)"
| "part_len _ = 0"

section \<open>The retriever (app.py)\<close>

text \<open>
  Iterating over a value with \<open>for\<close>: the items of a list, the characters of a string,
  the keys of a dict; the other values are not iterable.
\<close>

fun py_iter :: "pyval \<Rightarrow> py_exn + pyval list" where
  "py_iter (PList xs) = Inr xs"
| "py_iter (PStr s) = Inr (map (\<lambda>c. PStr [c]) s)"
| "py_iter (PDict kvs) = Inr (map (\<lambda>kv. PStr (fst kv)) kvs)"
| "py_iter _ = Inl TypeError"

text \<open>
  \<open>raw_matches\<close> of a response (lines 80 to 83): \<open>res.get("matches", []) or []\<close> for a
  dict, \<open>getattr(res, "matches", []) or []\<close> for anything else.
\<close>

fun raw_matches :: "pyval \<Rightarrow> pyval" where
  "raw_matches (PDict d) = py_or (dict_get d ''matches'' (PList [])) (PList [])"
| "raw_matches res = py_or (py_getattr res ''matches'' (PList [])) (PList [])"

text \<open>The body of the loop (lines 86 to 106): one raw match made a dict of three keys.\<close>

fun normalize_match :: "pyval \<Rightarrow> pyval" where
  "normalize_match (PDict m) =
     PDict [(''id'', dict_get m ''id'' PNone),
            (''score'', dict_get m ''score'' PNone),
            (''metadata'', dict_get m ''metadata'' (PDict []))]"
| "normalize_match m =
     PDict [(''id'', py_getattr m ''id'' PNone),
            (''score'', py_getattr m ''score'' PNone),
            (''metadata'', py_or (py_getattr m ''metadata'' (PDict [])) (PDict []))]"

text \<open>
  \<open>query_pinecone\<close>, given what \<open>pinecone_index.query\<close> did: an exception of the query
  goes to the caller, a response is normalized match by match.
\<close>

definition query_pinecone :: "py_exn + pyval \<Rightarrow> py_exn + pyval list" where
  "query_pinecone query_result =
     (case query_result of
        Inl e \<Rightarrow> Inl e
      | Inr res \<Rightarrow>
          (case py_iter (raw_matches res) of
             Inl e \<Rightarrow> Inl e
           | Inr ms \<Rightarrow> Inr (map normalize_match ms)))"

section \<open>The answer generator (app.py)\<close>

text \<open>
  \<open>s.split(sep)\<close> with a separator: the pieces between the occurrences of \<open>sep\<close>, found
  from the left, empty pieces kept. \<open>cur\<close> is the piece being read.
\<close>

function split_sep :: "string \<Rightarrow> string \<Rightarrow> string \<Rightarrow> string list" where
  "split_sep sep cur [] = [cur]"
| "split_sep sep cur (c # cs) =
     (if sep \<noteq> [] \<and> take (length sep) (c # cs) = sep
      then cur # split_sep sep [] (drop (length sep) (c # cs))
      else split_sep sep (cur @ [c]) cs)"
  by pat_completeness auto
termination
  by (relation "measure (\<lambda>(sep, cur, s). length s)") auto

definition unavailable_msg :: string where
  "unavailable_msg =
     ''Local LLM unavailable and no retrieved context. Please try again later or consult a medical professional.''"

definition fallback_header :: string where
  "fallback_header =
     ''The local language model is currently unavailable or returned an error. Below are the most relevant excerpts from the documents:\<newline>\<newline>''"

definition fallback_footer :: string where
  "fallback_footer =
     ''This is NOT a diagnosis. If you have severe or urgent symptoms (chest pain, difficulty breathing, heavy bleeding), call emergency services immediately. For a full evaluation, consult a qualified healthcare professional.''"

text \<open>\<open>[p.strip() for p in context.split("\n\n") if p.strip()]\<close>\<close>

definition snippets :: "string \<Rightarrow> string list" where
  "snippets context =
     map py_strip (filter (\<lambda>p. py_strip p \<noteq> []) (split_sep ''\<newline>\<newline>'' [] context))"

text \<open>\<open>ollama_fallback_extractive(context, note_error)\<close>\<close>

definition ollama_fallback_extractive :: "string \<Rightarrow> string \<Rightarrow> string" where
  "ollama_fallback_extractive context note_error =
     (if context = [] \<or> py_strip context = []
      then unavailable_msg @ (if note_error \<noteq> [] then '' (error: '' @ note_error @ '')'' else [])
      else fallback_header @ join ''\<newline>\<newline>'' (take 3 (snippets context)) @ ''\<newline>\<newline>''
             @ fallback_footer
             @ (if note_error \<noteq> [] then ''\<newline>\<newline>[debug: '' @ note_error @ '']'' else []))"

text \<open>
  What the HTTP call to Ollama did: an exception \<open>e\<close> raised by \<open>requests.post\<close>,
  \<open>raise_for_status\<close> or \<open>resp.json()\<close>, kept as \<open>str(e)\<close>, or the JSON value of the body.
\<close>

datatype ollama_outcome = CallFailed string | JsonBody pyval

definition system_text :: string where
  "system_text =
     ''You are Medibot, a medically-informed assistant. You MUST NOT provide definitive diagnoses. Always recommend consulting a qualified healthcare professional. If the user describes an emergency (chest pain, severe bleeding, difficulty breathing, sudden weakness or slurred speech), instruct them to call emergency services immediately.''"

definition prompt :: "string \<Rightarrow> string \<Rightarrow> string" where
  "prompt context question =
     system_text @ ''\<newline>\<newline>'' @ ''CONTEXT:\<newline>'' @ context @ ''\<newline>\<newline>''
       @ ''QUESTION:\<newline>'' @ question @ ''\<newline>\<newline>''
       @ ''Using ONLY the context above and general medical knowledge, answer concisely and safely. If the context is insufficient, say so and recommend seeing a doctor.''"

text \<open>The name of the type of a value, as the message of an \<open>AttributeError\<close> gives it.\<close>

fun type_name :: "pyval \<Rightarrow> string" where
  "type_name PNone = ''NoneType''"
| "type_name (PBool b) = ''bool''"
| "type_name (PInt i) = ''int''"
| "type_name (PFloat x) = ''float''"
| "type_name (PStr s) = ''str''"
| "type_name (PList xs) = ''list''"
| "type_name (PDict kvs) = ''dict''"
| "type_name (PObj attrs) = ''object''"

text \<open>
  The body of the \<open>try\<close> (lines 169 to 174). \<open>Inl\<close> is an exception, kept as \<open>str(e)\<close>;
  \<open>Inr\<close> is the value returned. \<open>py_str\<close> is Python's \<open>str\<close> on a JSON value. A
  \<open>"response"\<close> that is not a string has no \<open>strip\<close>.
\<close>

definition ollama_try :: "(pyval \<Rightarrow> string) \<Rightarrow> ollama_outcome \<Rightarrow> string + string" where
  "ollama_try py_str outcome =
     (case outcome of
        CallFailed msg \<Rightarrow> Inl msg
      | JsonBody j \<Rightarrow>
          (case j of
             PDict d \<Rightarrow>
               (if map_of d ''response'' \<noteq> None
                then (case dict_get d ''response'' (PStr []) of
                        PStr s \<Rightarrow> Inr (py_strip s)
                      | v \<Rightarrow> Inl ([CHR 0x27] @ type_name v @ [CHR 0x27]
                                 @ '' object has no attribute '' @ [CHR 0x27] @ ''strip'' @ [CHR 0x27]))
                else Inr (py_str j))
           | _ \<Rightarrow> Inr (py_str j)))"

text \<open>
  \<open>generate_answer_ollama(context, question)\<close>, with the service \<open>ollama\<close> that answers a
  prompt. \<open>Inl\<close> would be an exception that reaches the caller.
\<close>

definition generate_answer_ollama ::
  "(pyval \<Rightarrow> string) \<Rightarrow> (string \<Rightarrow> ollama_outcome) \<Rightarrow> string \<Rightarrow> string \<Rightarrow> py_exn + string" where
  "generate_answer_ollama py_str ollama context question =
     (case ollama_try py_str (ollama (prompt context question)) of
        Inr answer \<Rightarrow> Inr answer
      | Inl err \<Rightarrow> Inr (ollama_fallback_extractive context err))"

section \<open>The embedder (embed_texts.py)\<close>

text \<open>\<open>k in v\<close> for a string \<open>k\<close>: a key of a dict, an item of a list, a substring of a string.\<close>

fun is_infix :: "string \<Rightarrow> string \<Rightarrow> bool" where
  "is_infix k [] = (k = [])"
| "is_infix k (c # cs) = (take (length k) (c # cs) = k \<or> is_infix k cs)"

fun py_contains :: "string \<Rightarrow> pyval \<Rightarrow> py_exn + bool" where
  "py_contains k (PDict d) = Inr (map_of d k \<noteq> None)"
| "py_contains k (PList xs) = Inr (PStr k \<in> set xs)"
| "py_contains k (PStr s) = Inr (is_infix k s)"
| "py_contains k _ = Inl TypeError"

text \<open>\<open>v[k]\<close> for a string \<open>k\<close>: a dict is looked up, nothing else takes a string index.\<close>

fun py_getitem :: "pyval \<Rightarrow> string \<Rightarrow> py_exn + pyval" where
  "py_getitem (PDict d) k = (case map_of d k of Some v \<Rightarrow> Inr v | None \<Rightarrow> Inl KeyError)"
| "py_getitem _ k = Inl TypeError"

text \<open>\<open>v.get(k)\<close>: only a dict has the method.\<close>

fun py_get :: "pyval \<Rightarrow> string \<Rightarrow> py_exn + pyval" where
  "py_get (PDict d) k = Inr (dict_get d k PNone)"
| "py_get _ k = Inl AttributeError"

text \<open>
  Lines 68 to 70: when \<open>data\<close> has a non-empty list under \<open>"data"\<close>, the value returned,
  \<open>data["data"][0].get("embedding") or data["data"][0]\<close>; \<open>None\<close> when the test fails.
\<close>

definition from_data_list :: "pyval \<Rightarrow> py_exn + pyval option" where
  "from_data_list data =
     (case py_contains ''data'' data of
        Inl e \<Rightarrow> Inl e
      | Inr has \<Rightarrow>
          if \<not> has then Inr None
          else (case py_getitem data ''data'' of
                  Inl e \<Rightarrow> Inl e
                | Inr dd \<Rightarrow>
                    (case dd of
                       PList (x # xs) \<Rightarrow>
                         (case py_get x ''embedding'' of
                            Inl e \<Rightarrow> Inl e
                          | Inr emb \<Rightarrow> Inr (Some (py_or emb x)))
                     | _ \<Rightarrow> Inr None)))"

text \<open>
  Lines 66 to 74, after \<open>data = r.json()\<close>. The \<open>ValueError\<close> of line 74 is
  \<open>UnexpectedResponse\<close>, with the payload its message prints.
\<close>

definition parse_embedding :: "pyval \<Rightarrow> py_exn + pyval" where
  "parse_embedding data =
     (case from_data_list data of
        Inl e \<Rightarrow> Inl e
      | Inr (Some emb) \<Rightarrow> Inr emb
      | Inr None \<Rightarrow>
          (case py_contains ''embedding'' data of
             Inl e \<Rightarrow> Inl e
           | Inr has \<Rightarrow>
               if has then py_getitem data ''embedding''
               else Inl (UnexpectedResponse data)))"

text \<open>
  What one \<open>requests.post\<close> did: it raised for the network (connection error, timeout), or
  it gave a response with a status and a body, the body being JSON or not.
\<close>

datatype http_outcome = NetworkError | Response int "pyval option"

text \<open>
  The body of the \<open>try\<close> (lines 62 to 74). \<open>raise_for_status\<close> of the requests library
  raises \<open>HTTPError\<close> for a status from 400 to 599; \<open>r.json()\<close> raises for a body that is
  not JSON.
\<close>

definition try_body :: "http_outcome \<Rightarrow> py_exn + pyval" where
  "try_body outcome =
     (case outcome of
        NetworkError \<Rightarrow> Inl ConnectionError
      | Response status body \<Rightarrow>
          if 400 \<le> status \<and> status < 600 then Inl (HTTPError status)
          else (case body of
                  None \<Rightarrow> Inl JSONDecodeError
                | Some data \<Rightarrow> parse_embedding data))"

text \<open>
  The first test of the handler of \<open>requests.HTTPError\<close> (lines 76 to 79): the exceptions
  raised at once, whatever the attempt.
\<close>

fun raised_at_once :: "py_exn \<Rightarrow> bool" where
  "raised_at_once (HTTPError status) = (status \<noteq> 0 \<and> 400 \<le> status \<and> status < 500)"
| "raised_at_once _ = False"

text \<open>
  A run of \<open>groq_embed_one\<close>: what it returned or raised, the seconds it slept, in order,
  and the number of requests it made.
\<close>

record groq_run =
  outcome :: "py_exn + pyval"
  sleeps :: "nat list"
  attempts :: nat

text \<open>
  \<open>time.sleep(secs)\<close> of CPython turns the seconds into nanoseconds held in a signed
  integer of 64 bits and raises \<open>OverflowError\<close> when they do not fit: it accepts
  \<open>2 ** 33\<close> seconds and refuses \<open>2 ** 34\<close>.
\<close>

definition sleep_overflows :: "nat \<Rightarrow> bool" where
  "sleep_overflows secs = (secs * 1000000000 > 2 ^ 63 - 1)"

text \<open>
  The loop of \<open>groq_embed_one\<close>. \<open>post k\<close> is what the \<open>k\<close>-th request does, \<open>attempt0\<close>
  the counter \<open>attempt\<close> when an iteration starts, \<open>slept\<close> the backoffs so far. The
  handler of \<open>HTTPError\<close> first raises a client error at once; after that it does what
  the handler of any other exception does: it raises when \<open>attempt >= MAX_RETRIES\<close>, and
  otherwise sleeps \<open>2 ** attempt\<close> seconds and goes round again. An exception of
  \<open>time.sleep\<close> is raised inside the handler and leaves the function.
\<close>

function groq_loop :: "int \<Rightarrow> (nat \<Rightarrow> http_outcome) \<Rightarrow> nat \<Rightarrow> nat list \<Rightarrow> groq_run" where
  "groq_loop MAX_RETRIES post attempt0 slept =
     (let attempt = attempt0 + 1 in
      case try_body (post attempt) of
        Inr emb \<Rightarrow> \<lparr>outcome = Inr emb, sleeps = slept, attempts = attempt\<rparr>
      | Inl e \<Rightarrow>
          if raised_at_once e \<or> int attempt \<ge> MAX_RETRIES
          then \<lparr>outcome = Inl e, sleeps = slept, attempts = attempt\<rparr>
          else if sleep_overflows (2 ^ attempt)
          then \<lparr>outcome = Inl OverflowError, sleeps = slept, attempts = attempt\<rparr>
          else groq_loop MAX_RETRIES post attempt (slept @ [2 ^ attempt]))"
  by pat_completeness auto
termination
  by (relation "measure (\<lambda>(MAX_RETRIES, post, attempt0, slept). nat (MAX_RETRIES - int attempt0))") auto

declare groq_loop.simps [simp del]

definition groq_embed_one :: "int \<Rightarrow> (nat \<Rightarrow> http_outcome) \<Rightarrow> groq_run" where
  "groq_embed_one MAX_RETRIES post = groq_loop MAX_RETRIES post 0 []"

text \<open>
  The transient failures of a request: a network error, or a status from 500 to 599, for
  which \<open>raise_for_status\<close> raises an \<open>HTTPError\<close> that is not a client error.
\<close>

fun transient :: "http_outcome \<Rightarrow> bool" where
  "transient NetworkError = True"
| "transient (Response status body) = (500 \<le> status \<and> status < 600)"

text \<open>
  The \<open>k\<close>-th request ends the loop: it returns, or it raises an exception that is raised
  at once, or \<open>k\<close> has reached \<open>MAX_RETRIES\<close>.
\<close>

definition stops :: "int \<Rightarrow> (nat \<Rightarrow> http_outcome) \<Rightarrow> nat \<Rightarrow> bool" where
  "stops MAX_RETRIES post k =
     (case try_body (post k) of
        Inr emb \<Rightarrow> True
      | Inl e \<Rightarrow> raised_at_once e \<or> int k \<ge> MAX_RETRIES)"

section \<open>The uploader (pinecone_upload.py)\<close>

text \<open>\<open>str(n)\<close> of an integer, as an f-string prints it.\<close>

fun show_nat :: "nat \<Rightarrow> string" where
  "show_nat n =
     (if n < 10 then [char_of (48 + n)]
      else show_nat (n div 10) @ [char_of (48 + n mod 10)])"

declare show_nat.simps [simp del]

definition show_int :: "int \<Rightarrow> string" where
  "show_int i = (if i < 0 then CHR ''-'' # show_nat (nat (- i)) else show_nat (nat i))"














section \<open>The chunker (extract_texts.py)\<close>

text \<open>\<open>s.split()\<close>: the maximal runs of characters that are not whitespace.\<close>

fun split_ws :: "string \<Rightarrow> string \<Rightarrow> string list" where
  "split_ws cur [] = (if cur = [] then [] else [cur])"
| "split_ws cur (c # cs) =
     (if is_space c then (if cur = [] then split_ws [] cs else cur # split_ws [] cs)
      else split_ws (cur @ [c]) cs)"

definition py_split :: "string \<Rightarrow> string list" where
  "py_split s = split_ws [] s"

text \<open>\<open>xs[i:j]\<close>: a negative index counts from the end, and both are clamped to the list.\<close>

definition py_slice :: "'a list \<Rightarrow> int \<Rightarrow> int \<Rightarrow> 'a list" where
  "py_slice xs i j =
     (let n = int (length xs);
          lo = (if i < 0 then max (i + n) 0 else min i n);
          hi = (if j < 0 then max (j + n) 0 else min j n)
      in take (nat (hi - lo)) (drop (nat lo) xs))"

text \<open>A chunk, the dict of lines 47 to 53.\<close>

record chunk =
  c_id :: string
  c_source :: string
  c_page :: int
  c_chunk_id :: int
  c_text :: string

text \<open>The dict of a chunk of page \<open>page_index + 1\<close> of the file with the given stem and name.\<close>

definition make_chunk :: "string \<Rightarrow> string \<Rightarrow> int \<Rightarrow> int \<Rightarrow> string \<Rightarrow> chunk" where
  "make_chunk stem name page_index chunk_id chunk_text =
     \<lparr>c_id = stem @ ''_p'' @ show_int (page_index + 1) @ ''_c'' @ show_int chunk_id,
      c_source = name,
      c_page = page_index + 1,
      c_chunk_id = chunk_id,
      c_text = chunk_text\<rparr>"

text \<open>
  The \<open>while\<close> loop of lines 43 to 55, from the state \<open>(i, chunk_id, chunks)\<close>; \<open>mk\<close>
  builds the dict of a chunk from its number and text. A loop that does not end has the
  value \<open>None\<close>.
\<close>

partial_function (option) chunk_loop ::
  "(int \<Rightarrow> string \<Rightarrow> chunk) \<Rightarrow> string list \<Rightarrow> int \<Rightarrow> int \<Rightarrow> int \<Rightarrow> int \<Rightarrow> chunk list
     \<Rightarrow> chunk list option" where
  "chunk_loop mk words chunk_size overlap i chunk_id chunks =
     (if i < int (length words)
      then (let end = i + chunk_size;
                chunk_text = py_strip (join '' '' (py_slice words i end))
            in chunk_loop mk words chunk_size overlap (i + (chunk_size - overlap)) (chunk_id + 1)
                 (if chunk_text \<noteq> [] then chunks @ [mk chunk_id chunk_text] else chunks))
      else Some chunks)"

declare chunk_loop.simps [code]

text \<open>
  What the OCR of a page did: it raised, it gave no image, or it read a text. The text of
  a page is the native one unless it is shorter than \<open>OCR_THRESHOLD_CHARS\<close> once trimmed.
\<close>

datatype ocr_outcome = OcrRaised | OcrNoImage | OcrText string

definition OCR_THRESHOLD_CHARS :: nat where
  "OCR_THRESHOLD_CHARS = 60"

definition page_text :: "string \<Rightarrow> ocr_outcome \<Rightarrow> string" where
  "page_text native ocr =
     (if length (py_strip native) < OCR_THRESHOLD_CHARS
      then (case ocr of OcrRaised \<Rightarrow> [] | OcrNoImage \<Rightarrow> native | OcrText t \<Rightarrow> t)
      else native)"

text \<open>One iteration of the loop over the pages (lines 24 to 55), adding to \<open>chunks\<close>.\<close>

definition page_chunks ::
  "string \<Rightarrow> string \<Rightarrow> int \<Rightarrow> int \<Rightarrow> int \<Rightarrow> string \<Rightarrow> chunk list \<Rightarrow> chunk list option" where
  "page_chunks stem name chunk_size overlap page_index text chunks =
     (if py_strip text = [] then Some chunks
      else chunk_loop (make_chunk stem name page_index) (py_split text) chunk_size overlap 0 0 chunks)"

text \<open>
  \<open>extract_chunks_from_pdf_mupdf\<close> on the pages of a document, each with its native text
  and what OCR would do, from the page \<open>page_index\<close> on.
\<close>

fun pages_loop ::
  "string \<Rightarrow> string \<Rightarrow> int \<Rightarrow> int \<Rightarrow> int \<Rightarrow> (string \<times> ocr_outcome) list \<Rightarrow> chunk list
     \<Rightarrow> chunk list option" where
  "pages_loop stem name chunk_size overlap page_index [] chunks = Some chunks"
| "pages_loop stem name chunk_size overlap page_index ((native, ocr) # pages) chunks =
     (case page_chunks stem name chunk_size overlap page_index (page_text native ocr) chunks of
        None \<Rightarrow> None
      | Some chunks' \<Rightarrow> pages_loop stem name chunk_size overlap (page_index + 1) pages chunks')"

definition extract_chunks_from_pdf_mupdf ::
  "string \<Rightarrow> string \<Rightarrow> (string \<times> ocr_outcome) list \<Rightarrow> int \<Rightarrow> int \<Rightarrow> chunk list option" where
  "extract_chunks_from_pdf_mupdf stem name pages chunk_size overlap =
     pages_loop stem name chunk_size overlap 0 pages []"

text \<open>
  The windows that the chunker is to emit: the \<open>k\<close>-th window holds the \<open>S\<close> words from
  the offset \<open>k * step\<close> on (fewer at the end of the page), its text joins them with
  spaces, and \<open>N\<close> words have a window at each offset below \<open>N\<close>.
\<close>

definition window :: "string list \<Rightarrow> nat \<Rightarrow> nat \<Rightarrow> nat \<Rightarrow> string list" where
  "window words S step k = take S (drop (k * step) words)"

definition window_text :: "string list \<Rightarrow> nat \<Rightarrow> nat \<Rightarrow> nat \<Rightarrow> string" where
  "window_text words S step k = py_strip (join '' '' (window words S step k))"

definition n_windows :: "nat \<Rightarrow> nat \<Rightarrow> nat" where
  "n_windows N step = (N + step - 1) div step"

text \<open>A word, as \<open>split\<close> yields them: not empty, and without whitespace.\<close>

definition is_word :: "string \<Rightarrow> bool" where
  "is_word w = (w \<noteq> [] \<and> (\<forall>c \<in> set w. \<not> is_space c))"

text \<open>
  Two chunk texts share \<open>n\<close> words: the last \<open>n\<close> words of the first are the first \<open>n\<close>
  words of the second.
\<close>

definition share_words :: "nat \<Rightarrow> string \<Rightarrow> string \<Rightarrow> bool" where
  "share_words n a b =
     (let wa = py_split a; wb = py_split b
      in n \<le> length wa \<and> n \<le> length wb \<and> drop (length wa - n) wa = take n wb)"

section \<open>Properties of the context assembler\<close>

lemma py_len_part_len: "py_len v = Inr n \<Longrightarrow> part_len v = n"
  by (cases v) auto

lemma py_slice_to_part_len:
  "py_slice_to v a = Inr t \<Longrightarrow> py_len v = Inr n \<Longrightarrow> 0 \<le> a \<Longrightarrow> a \<le> n \<Longrightarrow> part_len t = a"
  by (cases v) (auto simp: slice_to_def)

text \<open>The invariant of the loop: \<open>total\<close> is the length of the parts and stays in the budget.\<close>

lemma context_parts_budget:
  "context_parts ms max_chars parts tot = Inr ps \<Longrightarrow> tot \<le> max_chars \<Longrightarrow>
   sum_list (map part_len parts) = tot \<Longrightarrow> sum_list (map part_len ps) \<le> max_chars"
proof (induction ms arbitrary: parts tot)
  case Nil
  then show ?case by simp
next
  case (Cons m ms)
  then show ?case
    by (auto simp: Let_def py_len_part_len split: sum.splits if_splits dest: py_slice_to_part_len)
qed

lemma join_length:
  "length (join sep ws) = sum_list (map length ws) + length sep * (length ws - 1)"
  by (induction sep ws rule: join.induct) auto

lemma py_strip_length: "length (py_strip s) \<le> length s"
proof -
  have "length (dropWhile is_space (rev (dropWhile is_space s)))
          \<le> length (rev (dropWhile is_space s))"
    by (rule length_dropWhile_le)
  also have "\<dots> \<le> length s"
    by (simp add: length_dropWhile_le)
  finally show ?thesis
    by (simp add: py_strip_def)
qed

lemma py_strip_nonempty: "py_strip s \<noteq> [] \<Longrightarrow> s \<noteq> []"
  by (auto simp: py_strip_def)

lemma py_join_Inr:
  assumes "py_join sep parts = Inr s"
  shows "\<exists>ws. parts = map PStr ws \<and> s = join sep ws"
proof -
  from assms have all: "list_all (\<lambda>p. str_of p \<noteq> None) parts"
    and s: "s = join sep (map (\<lambda>p. the (str_of p)) parts)"
    by (auto simp: py_join_def split: if_splits)
  have "map PStr (map (\<lambda>p. the (str_of p)) parts) = parts"
    using all
  proof (induction parts)
    case Nil
    then show ?case by simp
  next
    case (Cons p ps)
    then show ?case by (cases p) auto
  qed
  then show ?thesis
    using s by metis
qed


lemmas context_defs =
  build_context_from_matches_def select_preview_def py_or_def dict_get_def py_join_def
  py_strip_def is_space_def

text \<open>
  C1, as stated, fails: the running count leaves the separators out. Two matches with the
  previews \<open>ab\<close> and \<open>cd\<close> fit a budget of 4 characters, and the context assembled from
  them has 6.
\<close>

theorem context_budget_counterexample:
  "build_context_from_matches
     [PDict [(''metadata'', PDict [(''preview'', PStr ''ab'')])],
      PDict [(''metadata'', PDict [(''preview'', PStr ''cd'')])]] 4 = Inr ''ab\<newline>\<newline>cd''
   \<and> \<not> int (length ''ab\<newline>\<newline>cd'') \<le> 4"
  by (simp add: context_defs)

text \<open>
  C1, amended: for a budget \<open>max_chars \<ge> 0\<close>, the texts that the context assembler selects
  have a total length of at most \<open>max_chars\<close>, the separators not counted; the string
  returned, where each of the separators between the \<open>k\<close> parts adds two characters, has
  at most \<open>max_chars + 2 * (k - 1)\<close> characters.
\<close>

theorem context_budget:
  assumes "0 \<le> max_chars" and "build_context_from_matches matches max_chars = Inr s"
  shows "\<exists>ws. context_parts matches max_chars [] 0 = Inr (map PStr ws)
           \<and> s = py_strip (join ''\<newline>\<newline>'' ws)
           \<and> int (sum_list (map length ws)) \<le> max_chars
           \<and> int (length s) \<le> max_chars + 2 * int (length ws - 1)"
proof -
  from assms(2) obtain parts j where p: "context_parts matches max_chars [] 0 = Inr parts"
    and j: "py_join ''\<newline>\<newline>'' parts = Inr j" and s: "s = py_strip j"
    by (auto simp: build_context_from_matches_def split: sum.splits)
  from py_join_Inr[OF j] obtain ws where ws: "parts = map PStr ws" "j = join ''\<newline>\<newline>'' ws"
    by blast
  have "sum_list (map part_len parts) \<le> max_chars"
    using context_parts_budget[OF p] assms(1) by simp
  moreover have "sum_list (map part_len (map PStr ws)) = int (sum_list (map length ws))"
    by (induction ws) auto
  ultimately have b: "int (sum_list (map length ws)) \<le> max_chars"
    using ws by simp
  have "length s \<le> length j"
    using s py_strip_length by simp
  also have "\<dots> = sum_list (map length ws) + 2 * (length ws - 1)"
    using ws by (simp add: join_length)
  finally have "int (length s) \<le> int (sum_list (map length ws)) + 2 * int (length ws - 1)"
    by simp
  with b have "int (length s) \<le> max_chars + 2 * int (length ws - 1)"
    by linarith
  with p ws s b show ?thesis
    by auto
qed

text \<open>C1, amended, at the two matches of the counterexample and the budget 4.\<close>

theorem context_budget_witness:
  "(0::int) \<le> 4
   \<and> build_context_from_matches
       [PDict [(''metadata'', PDict [(''preview'', PStr ''ab'')])],
        PDict [(''metadata'', PDict [(''preview'', PStr ''cd'')])]] 4 = Inr ''ab\<newline>\<newline>cd''
   \<and> (\<exists>ws. context_parts
              [PDict [(''metadata'', PDict [(''preview'', PStr ''ab'')])],
               PDict [(''metadata'', PDict [(''preview'', PStr ''cd'')])]] 4 [] 0 = Inr (map PStr ws)
           \<and> ''ab\<newline>\<newline>cd'' = py_strip (join ''\<newline>\<newline>'' ws)
           \<and> int (sum_list (map length ws)) \<le> 4
           \<and> int (length ''ab\<newline>\<newline>cd'') \<le> 4 + 2 * int (length ws - 1))"
proof -
  have h1: "(0::int) \<le> 4"
    by simp
  have h2: "build_context_from_matches
       [PDict [(''metadata'', PDict [(''preview'', PStr ''ab'')])],
        PDict [(''metadata'', PDict [(''preview'', PStr ''cd'')])]] 4 = Inr ''ab\<newline>\<newline>cd''"
    by (simp add: context_defs)
  from context_budget[OF h1 h2] h1 h2 show ?thesis
    by blast
qed



section \<open>Properties of the retriever\<close>

text \<open>
  C8, as stated, fails for a response whose \<open>matches\<close> is a value that is not empty and
  cannot be iterated: the loop over it raises \<open>TypeError\<close>.
\<close>

theorem query_pinecone_counterexample:
  "query_pinecone (Inr (PDict [(''matches'', PInt 5)])) = Inl TypeError"
  by (simp add: query_pinecone_def py_or_def dict_get_def)

text \<open>
  C8, amended: for a response, a dict or an object, whose \<open>matches\<close> is a list,
  \<open>query_pinecone\<close> raises nothing and returns, in the order of the list, one dict with
  the keys \<open>id\<close>, \<open>score\<close>, \<open>metadata\<close> for each raw match; \<open>matches\<close> that is missing,
  null or empty gives no match; a number or an object there raises \<open>TypeError\<close>. For a
  match that is a dict and for a match that is an object, a missing \<open>id\<close> or \<open>score\<close>
  gives \<open>None\<close> and a missing \<open>metadata\<close> gives the empty dict.
\<close>

theorem query_pinecone_normalizes:
  "((res = PDict d \<or> res = PObj d) \<and> map_of d ''matches'' = Some (PList ms) \<longrightarrow>
      query_pinecone (Inr res) = Inr (map normalize_match ms))
   \<and> ((res = PDict d \<or> res = PObj d)
        \<and> (map_of d ''matches'' = None \<or> (\<exists>v. map_of d ''matches'' = Some v \<and> \<not> truthy v)) \<longrightarrow>
        query_pinecone (Inr res) = Inr [])
   \<and> ((res = PDict d \<or> res = PObj d) \<and> map_of d ''matches'' = Some v \<and> truthy v
        \<and> ((\<exists>i. v = PInt i) \<or> (\<exists>x. v = PFloat x) \<or> (\<exists>b. v = PBool b) \<or> (\<exists>a. v = PObj a)) \<longrightarrow>
        query_pinecone (Inr res) = Inl TypeError)
   \<and> (\<exists>i sc md. normalize_match m = PDict [(''id'', i), (''score'', sc), (''metadata'', md)])
   \<and> normalize_match (PDict r) =
        PDict [(''id'', case map_of r ''id'' of Some v \<Rightarrow> v | None \<Rightarrow> PNone),
               (''score'', case map_of r ''score'' of Some v \<Rightarrow> v | None \<Rightarrow> PNone),
               (''metadata'', case map_of r ''metadata'' of Some v \<Rightarrow> v | None \<Rightarrow> PDict [])]
   \<and> normalize_match (PObj a) =
        PDict [(''id'', case map_of a ''id'' of Some v \<Rightarrow> v | None \<Rightarrow> PNone),
               (''score'', case map_of a ''score'' of Some v \<Rightarrow> v | None \<Rightarrow> PNone),
               (''metadata'', case map_of a ''metadata'' of
                                 Some v \<Rightarrow> if truthy v then v else PDict []
                               | None \<Rightarrow> PDict [])]"
proof (intro conjI impI)
  assume "(res = PDict d \<or> res = PObj d) \<and> map_of d ''matches'' = Some (PList ms)"
  then show "query_pinecone (Inr res) = Inr (map normalize_match ms)"
    by (auto simp: query_pinecone_def py_or_def dict_get_def)
next
  assume "(res = PDict d \<or> res = PObj d)
        \<and> (map_of d ''matches'' = None \<or> (\<exists>v. map_of d ''matches'' = Some v \<and> \<not> truthy v))"
  then show "query_pinecone (Inr res) = Inr []"
    by (auto simp: query_pinecone_def py_or_def dict_get_def)
next
  assume "(res = PDict d \<or> res = PObj d) \<and> map_of d ''matches'' = Some v \<and> truthy v
        \<and> ((\<exists>i. v = PInt i) \<or> (\<exists>x. v = PFloat x) \<or> (\<exists>b. v = PBool b) \<or> (\<exists>a. v = PObj a))"
  then show "query_pinecone (Inr res) = Inl TypeError"
    by (auto simp: query_pinecone_def py_or_def dict_get_def)
next
  show "\<exists>i sc md. normalize_match m = PDict [(''id'', i), (''score'', sc), (''metadata'', md)]"
    by (cases m) simp_all
next
  show "normalize_match (PDict r) =
        PDict [(''id'', case map_of r ''id'' of Some v \<Rightarrow> v | None \<Rightarrow> PNone),
               (''score'', case map_of r ''score'' of Some v \<Rightarrow> v | None \<Rightarrow> PNone),
               (''metadata'', case map_of r ''metadata'' of Some v \<Rightarrow> v | None \<Rightarrow> PDict [])]"
    by (simp add: dict_get_def)
next
  show "normalize_match (PObj a) =
        PDict [(''id'', case map_of a ''id'' of Some v \<Rightarrow> v | None \<Rightarrow> PNone),
               (''score'', case map_of a ''score'' of Some v \<Rightarrow> v | None \<Rightarrow> PNone),
               (''metadata'', case map_of a ''metadata'' of
                                 Some v \<Rightarrow> if truthy v then v else PDict []
                               | None \<Rightarrow> PDict [])]"
    by (simp add: dict_get_def py_or_def split: option.splits)
qed

text \<open>
  C8, amended, at a response that is a dict and at one that is an object, each with two
  matches, a dict that has only an \<open>id\<close> and an object that has only a \<open>score\<close>; at a
  response without \<open>matches\<close>; and at the response of the counterexample.
\<close>

theorem query_pinecone_normalizes_witness:
  "map_of [(''matches'', PList [PDict [(''id'', PStr ''x'')], PObj [(''score'', PFloat 0.5)]])] ''matches''
     = Some (PList [PDict [(''id'', PStr ''x'')], PObj [(''score'', PFloat 0.5)]])
   \<and> query_pinecone
        (Inr (PDict [(''matches'', PList [PDict [(''id'', PStr ''x'')], PObj [(''score'', PFloat 0.5)]])]))
      = Inr [PDict [(''id'', PStr ''x''), (''score'', PNone), (''metadata'', PDict [])],
             PDict [(''id'', PNone), (''score'', PFloat 0.5), (''metadata'', PDict [])]]
   \<and> query_pinecone
        (Inr (PObj [(''matches'', PList [PDict [(''id'', PStr ''x'')], PObj [(''score'', PFloat 0.5)]])]))
      = Inr [PDict [(''id'', PStr ''x''), (''score'', PNone), (''metadata'', PDict [])],
             PDict [(''id'', PNone), (''score'', PFloat 0.5), (''metadata'', PDict [])]]
   \<and> map_of [(''namespace'', PStr '''')] ''matches'' = None
   \<and> query_pinecone (Inr (PObj [(''namespace'', PStr '''')])) = Inr []
   \<and> truthy (PInt 5)
   \<and> query_pinecone (Inr (PDict [(''matches'', PInt 5)])) = Inl TypeError"
  using query_pinecone_normalizes
    [where res = "PDict [(''matches'', PList [PDict [(''id'', PStr ''x'')], PObj [(''score'', PFloat 0.5)]])]"
       and d = "[(''matches'', PList [PDict [(''id'', PStr ''x'')], PObj [(''score'', PFloat 0.5)]])]"
       and ms = "[PDict [(''id'', PStr ''x'')], PObj [(''score'', PFloat 0.5)]]"]
    query_pinecone_normalizes
    [where res = "PObj [(''matches'', PList [PDict [(''id'', PStr ''x'')], PObj [(''score'', PFloat 0.5)]])]"
       and d = "[(''matches'', PList [PDict [(''id'', PStr ''x'')], PObj [(''score'', PFloat 0.5)]])]"
       and ms = "[PDict [(''id'', PStr ''x'')], PObj [(''score'', PFloat 0.5)]]"]
    query_pinecone_normalizes
    [where res = "PObj [(''namespace'', PStr '''')]" and d = "[(''namespace'', PStr '''')]"]
    query_pinecone_normalizes
    [where res = "PDict [(''matches'', PInt 5)]" and d = "[(''matches'', PInt 5)]" and v = "PInt 5"]
  by (simp add: py_or_def dict_get_def)

section \<open>Properties of the answer generator\<close>

lemma split_sep_not_Nil: "split_sep sep cur s \<noteq> []"
  by (induction sep cur s rule: split_sep.induct) auto

lemma join_Cons: "ws \<noteq> [] \<Longrightarrow> join sep (w # ws) = w @ sep @ join sep ws"
  by (cases ws) auto

text \<open>Joining the pieces of a split gives the string back.\<close>

lemma join_split_sep: "join sep (split_sep sep cur s) = cur @ s"
proof (induction sep cur s rule: split_sep.induct)
  case (1 sep cur)
  then show ?case by simp
next
  case (2 sep cur c cs)
  show ?case
  proof (cases "sep \<noteq> [] \<and> take (length sep) (c # cs) = sep")
    case True
    then have "join sep (split_sep sep cur (c # cs))
        = cur @ sep @ join sep (split_sep sep [] (drop (length sep) (c # cs)))"
      by (simp add: join_Cons split_sep_not_Nil del: take_Suc_Cons drop_Suc_Cons)
    also have "\<dots> = cur @ sep @ drop (length sep) (c # cs)"
      using 2(1) True by simp
    also have "\<dots> = cur @ take (length sep) (c # cs) @ drop (length sep) (c # cs)"
      using True by simp
    finally show ?thesis
      by (simp only: append_take_drop_id)
  next
    case False
    then show ?thesis
      using 2(2) by auto
  qed
qed

lemma set_join: "set (join sep ws) \<subseteq> set sep \<union> (\<Union>w \<in> set ws. set w)"
  by (induction sep ws rule: join.induct) auto

lemma py_strip_Nil_iff: "py_strip s = [] \<longleftrightarrow> (\<forall>c \<in> set s. is_space c)"
proof
  assume "py_strip s = []"
  then have "\<forall>c \<in> set (dropWhile is_space s). is_space c"
    by (simp add: py_strip_def dropWhile_eq_Nil_conv)
  then have "dropWhile is_space s = []"
    using hd_dropWhile[of is_space s] hd_in_set[of "dropWhile is_space s"] by blast
  then show "\<forall>c \<in> set s. is_space c"
    by (simp add: dropWhile_eq_Nil_conv)
next
  assume "\<forall>c \<in> set s. is_space c"
  then have "dropWhile is_space s = []"
    by (simp add: dropWhile_eq_Nil_conv)
  then show "py_strip s = []"
    by (simp only: py_strip_def rev.simps dropWhile.simps)
qed

text \<open>A context that is not blank has a segment that is not blank.\<close>

lemma snippets_not_Nil:
  assumes "py_strip context \<noteq> []"
  shows "snippets context \<noteq> []"
proof
  assume "snippets context = []"
  then have blank: "\<forall>p \<in> set (split_sep ''\<newline>\<newline>'' [] context). py_strip p = []"
    by (auto simp: snippets_def filter_empty_conv)
  have "set context \<subseteq> set ''\<newline>\<newline>'' \<union> (\<Union>w \<in> set (split_sep ''\<newline>\<newline>'' [] context). set w)"
    using set_join[of "''\<newline>\<newline>''" "split_sep ''\<newline>\<newline>'' [] context"]
    by (simp only: join_split_sep append_Nil)
  moreover have "\<forall>c \<in> set ''\<newline>\<newline>''. is_space c"
    by (simp add: is_space_def)
  ultimately have "\<forall>c \<in> set context. is_space c"
    using blank py_strip_Nil_iff by blast
  then show False
    using assms py_strip_Nil_iff by blast
qed

text \<open>
  The pieces of \<open>split\<close> are cut at the leftmost blank lines: no piece holds a blank
  line, and no piece before a blank line ends with a line feed.
\<close>

lemma no_blank_line_snoc:
  assumes "\<forall>u v. w \<noteq> u @ ''\<newline>\<newline>'' @ v"
    and "\<not> (w \<noteq> [] \<and> last w = CHR ''\<newline>'' \<and> c = CHR ''\<newline>'')"
  shows "\<forall>u v. w @ [c] \<noteq> u @ ''\<newline>\<newline>'' @ v"
proof (intro allI notI)
  fix u v
  assume e: "w @ [c] = u @ ''\<newline>\<newline>'' @ v"
  show False
  proof (cases v rule: rev_cases)
    case Nil
    then have "w @ [c] = (u @ ''\<newline>'') @ [CHR ''\<newline>'']"
      using e by simp
    then have "w = u @ ''\<newline>''" and "c = CHR ''\<newline>''"
      by (simp_all only: append1_eq_conv)
    then show False
      using assms(2) by simp
  next
    case (snoc v' y)
    then have "w @ [c] = (u @ ''\<newline>\<newline>'' @ v') @ [y]"
      using e by simp
    then have "w = u @ ''\<newline>\<newline>'' @ v'"
      by (simp only: append1_eq_conv)
    then show False
      using assms(1) by blast
  qed
qed

lemma split_sep_leftmost:
  assumes "\<forall>u v. cur \<noteq> u @ ''\<newline>\<newline>'' @ v"
    and "cur \<noteq> [] \<and> last cur = CHR ''\<newline>'' \<longrightarrow> s = [] \<or> hd s \<noteq> CHR ''\<newline>''"
  shows "(\<forall>seg \<in> set (split_sep ''\<newline>\<newline>'' cur s). \<forall>u v. seg \<noteq> u @ ''\<newline>\<newline>'' @ v)
       \<and> (\<forall>seg \<in> set (butlast (split_sep ''\<newline>\<newline>'' cur s)). seg = [] \<or> last seg \<noteq> CHR ''\<newline>'')"
  using assms
proof (induction "''\<newline>\<newline>''" cur s rule: split_sep.induct)
  case (1 cur)
  then show ?case by simp
next
  case (2 cur c cs)
  show ?case
  proof (cases "take (length ''\<newline>\<newline>'') (c # cs) = ''\<newline>\<newline>''")
    case True
    then have c: "c = CHR ''\<newline>''"
      by simp
    have r: "split_sep ''\<newline>\<newline>'' cur (c # cs)
        = cur # split_sep ''\<newline>\<newline>'' [] (drop (length ''\<newline>\<newline>'') (c # cs))"
      using True by (simp del: take_Suc_Cons drop_Suc_Cons)
    have ih: "(\<forall>seg \<in> set (split_sep ''\<newline>\<newline>'' [] (drop (length ''\<newline>\<newline>'') (c # cs))).
            \<forall>u v. seg \<noteq> u @ ''\<newline>\<newline>'' @ v)
       \<and> (\<forall>seg \<in> set (butlast (split_sep ''\<newline>\<newline>'' [] (drop (length ''\<newline>\<newline>'') (c # cs)))).
            seg = [] \<or> last seg \<noteq> CHR ''\<newline>'')"
      using True by (intro 2(1)) simp_all
    have "cur = [] \<or> last cur \<noteq> CHR ''\<newline>''"
      using 2(4) c by auto
    then show ?thesis
      using ih 2(3) by (simp only: r) (simp add: split_sep_not_Nil)
  next
    case False
    have n: "\<not> (cur \<noteq> [] \<and> last cur = CHR ''\<newline>'' \<and> c = CHR ''\<newline>'')"
      using 2(4) by auto
    have a: "\<forall>u v. cur @ [c] \<noteq> u @ ''\<newline>\<newline>'' @ v"
      by (rule no_blank_line_snoc[OF 2(3) n])
    have b: "cur @ [c] \<noteq> [] \<and> last (cur @ [c]) = CHR ''\<newline>'' \<longrightarrow> cs = [] \<or> hd cs \<noteq> CHR ''\<newline>''"
      using False by (cases cs) auto
    have r: "split_sep ''\<newline>\<newline>'' cur (c # cs) = split_sep ''\<newline>\<newline>'' (cur @ [c]) cs"
      using False by (simp del: take_Suc_Cons)
    show ?thesis
      unfolding r using False a b by (intro 2(2)) simp_all
  qed
qed

lemma fallback_first_char:
  "hd (ollama_fallback_extractive context err) = CHR ''L''
   \<or> hd (ollama_fallback_extractive context err) = CHR ''T''"
  by (simp add: ollama_fallback_extractive_def unavailable_msg_def fallback_header_def)

text \<open>
  C7, as stated, fails for a response that is malformed and yet decodes: a body with the
  status 200 that is an object without \<open>response\<close> raises nothing, and the call returns
  \<open>str\<close> of the body, which starts with a brace, where every fallback starts with
  \<open>Local\<close> or \<open>The\<close>.
\<close>

theorem generate_answer_counterexample:
  "generate_answer_ollama
     (\<lambda>j. ''{'' @ [CHR 0x27] @ ''error'' @ [CHR 0x27] @ '': '' @ [CHR 0x27] @ ''busy'' @ [CHR 0x27] @ ''}'')
     (\<lambda>p. JsonBody (PDict [(''error'', PStr ''busy'')])) ''fever for two days'' ''what to do''
   = Inr (''{'' @ [CHR 0x27] @ ''error'' @ [CHR 0x27] @ '': '' @ [CHR 0x27] @ ''busy'' @ [CHR 0x27] @ ''}'')
   \<and> hd (ollama_fallback_extractive ''fever for two days'' ''busy'') = CHR ''T''"
  by (simp add: generate_answer_ollama_def ollama_try_def ollama_fallback_extractive_def
      fallback_header_def py_strip_def is_space_def)

text \<open>
  C7, amended: \<open>generate_answer_ollama\<close> raises nothing. When the call raises, that is
  when the request, its status or the decoding of the body fails with the error text
  \<open>msg\<close>, or when the body is an object whose \<open>response\<close> is not a string, it returns the
  fallback with the error; a \<open>response\<close> that is a string is returned trimmed, and any
  other body is returned as \<open>str\<close> gives it. The fallback for a context that is empty or
  blank is the static message, followed by the error when there is one. For any other
  context it is not empty: it is the fixed opening, then the first three segments of the
  context that are not blank, trimmed and separated by blank lines, then the fixed
  disclaimer and, when there is one, the error; the segments are the pieces of the
  context between its blank lines, cut at the leftmost ones, and one of them at least is
  not blank.
\<close>

theorem generate_answer_fallback:
  "(\<exists>answer. generate_answer_ollama py_str ollama context question = Inr answer)
   \<and> (ollama (prompt context question) = CallFailed msg \<longrightarrow>
        generate_answer_ollama py_str ollama context question
          = Inr (ollama_fallback_extractive context msg))
   \<and> (ollama (prompt context question) = JsonBody (PDict d) \<and> map_of d ''response'' = Some v
        \<and> (\<forall>s. v \<noteq> PStr s) \<longrightarrow>
        generate_answer_ollama py_str ollama context question
          = Inr (ollama_fallback_extractive context
                   ([CHR 0x27] @ type_name v @ [CHR 0x27] @ '' object has no attribute ''
                      @ [CHR 0x27] @ ''strip'' @ [CHR 0x27])))
   \<and> (ollama (prompt context question) = JsonBody (PDict d) \<and> map_of d ''response'' = Some (PStr s) \<longrightarrow>
        generate_answer_ollama py_str ollama context question = Inr (py_strip s))
   \<and> (ollama (prompt context question) = JsonBody j
        \<and> \<not> (\<exists>d v. j = PDict d \<and> map_of d ''response'' = Some v) \<longrightarrow>
        generate_answer_ollama py_str ollama context question = Inr (py_str j))
   \<and> (py_strip context = [] \<longrightarrow>
        ollama_fallback_extractive context err
          = ''Local LLM unavailable and no retrieved context. Please try again later or consult a medical professional.''
              @ (if err = [] then [] else '' (error: '' @ err @ '')''))
   \<and> (py_strip context \<noteq> [] \<longrightarrow>
        ollama_fallback_extractive context err \<noteq> []
        \<and> (\<exists>segs. join ''\<newline>\<newline>'' segs = context
              \<and> (\<forall>seg \<in> set segs. \<forall>u v. seg \<noteq> u @ ''\<newline>\<newline>'' @ v)
              \<and> (\<forall>seg \<in> set (butlast segs). seg = [] \<or> last seg \<noteq> CHR ''\<newline>'')
              \<and> filter (\<lambda>p. py_strip p \<noteq> []) segs \<noteq> []
              \<and> ollama_fallback_extractive context err
                  = ''The local language model is currently unavailable or returned an error. Below are the most relevant excerpts from the documents:\<newline>\<newline>''
                      @ join ''\<newline>\<newline>'' (take 3 (map py_strip (filter (\<lambda>p. py_strip p \<noteq> []) segs)))
                      @ ''\<newline>\<newline>''
                      @ ''This is NOT a diagnosis. If you have severe or urgent symptoms (chest pain, difficulty breathing, heavy bleeding), call emergency services immediately. For a full evaluation, consult a qualified healthcare professional.''
                      @ (if err = [] then [] else ''\<newline>\<newline>[debug: '' @ err @ '']'')))"
proof (intro conjI impI)
  show "\<exists>answer. generate_answer_ollama py_str ollama context question = Inr answer"
    by (simp add: generate_answer_ollama_def split: sum.splits)
next
  assume "ollama (prompt context question) = CallFailed msg"
  then show "generate_answer_ollama py_str ollama context question
          = Inr (ollama_fallback_extractive context msg)"
    by (simp add: generate_answer_ollama_def ollama_try_def)
next
  assume a: "ollama (prompt context question) = JsonBody (PDict d) \<and> map_of d ''response'' = Some v
        \<and> (\<forall>s. v \<noteq> PStr s)"
  then have "ollama_try py_str (ollama (prompt context question))
      = Inl ([CHR 0x27] @ type_name v @ [CHR 0x27] @ '' object has no attribute ''
                      @ [CHR 0x27] @ ''strip'' @ [CHR 0x27])"
    by (cases v) (simp_all add: ollama_try_def dict_get_def)
  then show "generate_answer_ollama py_str ollama context question
          = Inr (ollama_fallback_extractive context
                   ([CHR 0x27] @ type_name v @ [CHR 0x27] @ '' object has no attribute ''
                      @ [CHR 0x27] @ ''strip'' @ [CHR 0x27]))"
    by (simp add: generate_answer_ollama_def)
next
  assume "ollama (prompt context question) = JsonBody (PDict d) \<and> map_of d ''response'' = Some (PStr s)"
  then show "generate_answer_ollama py_str ollama context question = Inr (py_strip s)"
    by (simp add: generate_answer_ollama_def ollama_try_def dict_get_def)
next
  assume a: "ollama (prompt context question) = JsonBody j
        \<and> \<not> (\<exists>d v. j = PDict d \<and> map_of d ''response'' = Some v)"
  then have "ollama_try py_str (ollama (prompt context question)) = Inr (py_str j)"
    by (cases j) (auto simp: ollama_try_def)
  then show "generate_answer_ollama py_str ollama context question = Inr (py_str j)"
    by (simp add: generate_answer_ollama_def)
next
  assume "py_strip context = []"
  then show "ollama_fallback_extractive context err
          = ''Local LLM unavailable and no retrieved context. Please try again later or consult a medical professional.''
              @ (if err = [] then [] else '' (error: '' @ err @ '')'')"
    by (simp add: ollama_fallback_extractive_def unavailable_msg_def)
next
  assume ne: "py_strip context \<noteq> []"
  then have c: "context \<noteq> []"
    using py_strip_nonempty by blast
  show "ollama_fallback_extractive context err \<noteq> []"
    using ne c by (simp add: ollama_fallback_extractive_def fallback_header_def)
  let ?segs = "split_sep ''\<newline>\<newline>'' [] context"
  have j: "join ''\<newline>\<newline>'' ?segs = context"
    by (simp add: join_split_sep)
  have l: "(\<forall>seg \<in> set ?segs. \<forall>u v. seg \<noteq> u @ ''\<newline>\<newline>'' @ v)
       \<and> (\<forall>seg \<in> set (butlast ?segs). seg = [] \<or> last seg \<noteq> CHR ''\<newline>'')"
    by (rule split_sep_leftmost) simp_all
  have f: "filter (\<lambda>p. py_strip p \<noteq> []) ?segs \<noteq> []"
    using snippets_not_Nil[OF ne] by (simp add: snippets_def)
  have e: "ollama_fallback_extractive context err
                  = ''The local language model is currently unavailable or returned an error. Below are the most relevant excerpts from the documents:\<newline>\<newline>''
                      @ join ''\<newline>\<newline>'' (take 3 (map py_strip (filter (\<lambda>p. py_strip p \<noteq> []) ?segs)))
                      @ ''\<newline>\<newline>''
                      @ ''This is NOT a diagnosis. If you have severe or urgent symptoms (chest pain, difficulty breathing, heavy bleeding), call emergency services immediately. For a full evaluation, consult a qualified healthcare professional.''
                      @ (if err = [] then [] else ''\<newline>\<newline>[debug: '' @ err @ '']'')"
    using ne c
    by (simp add: ollama_fallback_extractive_def snippets_def fallback_header_def fallback_footer_def)
  from j l f e
  show "\<exists>segs. join ''\<newline>\<newline>'' segs = context
              \<and> (\<forall>seg \<in> set segs. \<forall>u v. seg \<noteq> u @ ''\<newline>\<newline>'' @ v)
              \<and> (\<forall>seg \<in> set (butlast segs). seg = [] \<or> last seg \<noteq> CHR ''\<newline>'')
              \<and> filter (\<lambda>p. py_strip p \<noteq> []) segs \<noteq> []
              \<and> ollama_fallback_extractive context err
                  = ''The local language model is currently unavailable or returned an error. Below are the most relevant excerpts from the documents:\<newline>\<newline>''
                      @ join ''\<newline>\<newline>'' (take 3 (map py_strip (filter (\<lambda>p. py_strip p \<noteq> []) segs)))
                      @ ''\<newline>\<newline>''
                      @ ''This is NOT a diagnosis. If you have severe or urgent symptoms (chest pain, difficulty breathing, heavy bleeding), call emergency services immediately. For a full evaluation, consult a qualified healthcare professional.''
                      @ (if err = [] then [] else ''\<newline>\<newline>[debug: '' @ err @ '']'')"
    by (intro exI[of _ ?segs] conjI) blast+
qed

text \<open>
  C7, amended, at a call that fails with the error \<open>boom\<close>, for a context of five
  segments, one of them blank, and for a blank context; at a \<open>response\<close> that is null; at
  a \<open>response\<close> that is a string; and at a body that is a list.
\<close>

theorem generate_answer_fallback_witness:
  "py_strip ''a\<newline>\<newline> \<newline>\<newline> b \<newline>\<newline>c\<newline>\<newline>d'' \<noteq> []
   \<and> generate_answer_ollama (\<lambda>j. []) (\<lambda>p. CallFailed ''boom'') ''a\<newline>\<newline> \<newline>\<newline> b \<newline>\<newline>c\<newline>\<newline>d'' ''q''
       = Inr (fallback_header @ ''a\<newline>\<newline>b\<newline>\<newline>c'' @ ''\<newline>\<newline>'' @ fallback_footer
                @ ''\<newline>\<newline>[debug: boom]'')
   \<and> py_strip '' \<newline>'' = []
   \<and> generate_answer_ollama (\<lambda>j. []) (\<lambda>p. CallFailed ''boom'') '' \<newline>'' ''q''
       = Inr (unavailable_msg @ '' (error: boom)'')
   \<and> generate_answer_ollama (\<lambda>j. []) (\<lambda>p. JsonBody (PDict [(''response'', PNone)])) '' \<newline>'' ''q''
       = Inr (unavailable_msg @ '' (error: '' @ [CHR 0x27] @ ''NoneType'' @ [CHR 0x27]
                @ '' object has no attribute '' @ [CHR 0x27] @ ''strip'' @ [CHR 0x27] @ '')'')
   \<and> generate_answer_ollama (\<lambda>j. []) (\<lambda>p. JsonBody (PDict [(''response'', PStr '' ok '')])) '' \<newline>'' ''q''
       = Inr ''ok''
   \<and> generate_answer_ollama (\<lambda>j. ''[]'') (\<lambda>p. JsonBody (PList [])) '' \<newline>'' ''q'' = Inr ''[]''"
proof -
  have s1: "py_strip ''a\<newline>\<newline> \<newline>\<newline> b \<newline>\<newline>c\<newline>\<newline>d'' \<noteq> []"
    by (simp add: py_strip_def is_space_def)
  have s2: "py_strip '' \<newline>'' = []"
    by (simp add: py_strip_def is_space_def)
  have s3: "py_strip '' ok '' = ''ok''"
    by (simp add: py_strip_def is_space_def)
  have fb: "ollama_fallback_extractive ''a\<newline>\<newline> \<newline>\<newline> b \<newline>\<newline>c\<newline>\<newline>d'' ''boom''
      = fallback_header @ ''a\<newline>\<newline>b\<newline>\<newline>c'' @ ''\<newline>\<newline>'' @ fallback_footer @ ''\<newline>\<newline>[debug: boom]''"
    by (simp add: ollama_fallback_extractive_def snippets_def py_strip_def is_space_def)
  have a: "generate_answer_ollama (\<lambda>j. []) (\<lambda>p. CallFailed ''boom'') ''a\<newline>\<newline> \<newline>\<newline> b \<newline>\<newline>c\<newline>\<newline>d'' ''q''
       = Inr (fallback_header @ ''a\<newline>\<newline>b\<newline>\<newline>c'' @ ''\<newline>\<newline>'' @ fallback_footer
                @ ''\<newline>\<newline>[debug: boom]'')"
    using generate_answer_fallback
      [of "\<lambda>j. []" "\<lambda>p. CallFailed ''boom''" "''a\<newline>\<newline> \<newline>\<newline> b \<newline>\<newline>c\<newline>\<newline>d''" "''q''" "''boom''"]
    by (simp only: fb)
  have b: "generate_answer_ollama (\<lambda>j. []) (\<lambda>p. CallFailed ''boom'') '' \<newline>'' ''q''
       = Inr (unavailable_msg @ '' (error: boom)'')"
    using generate_answer_fallback
      [of "\<lambda>j. []" "\<lambda>p. CallFailed ''boom''" "'' \<newline>''" "''q''" "''boom''" _ _ _ _ "''boom''"] s2
    by (simp add: unavailable_msg_def)
  have c: "generate_answer_ollama (\<lambda>j. []) (\<lambda>p. JsonBody (PDict [(''response'', PNone)])) '' \<newline>'' ''q''
       = Inr (unavailable_msg @ '' (error: '' @ [CHR 0x27] @ ''NoneType'' @ [CHR 0x27]
                @ '' object has no attribute '' @ [CHR 0x27] @ ''strip'' @ [CHR 0x27] @ '')'')"
    using generate_answer_fallback
      [of "\<lambda>j. []" "\<lambda>p. JsonBody (PDict [(''response'', PNone)])" "'' \<newline>''" "''q''" _
          "[(''response'', PNone)]" PNone _ _
          "[CHR 0x27] @ ''NoneType'' @ [CHR 0x27] @ '' object has no attribute ''
             @ [CHR 0x27] @ ''strip'' @ [CHR 0x27]"] s2
    by (simp add: unavailable_msg_def)
  have d: "generate_answer_ollama (\<lambda>j. []) (\<lambda>p. JsonBody (PDict [(''response'', PStr '' ok '')])) '' \<newline>'' ''q''
       = Inr ''ok''"
    using generate_answer_fallback
      [of "\<lambda>j. []" "\<lambda>p. JsonBody (PDict [(''response'', PStr '' ok '')])" "'' \<newline>''" "''q''" _
          "[(''response'', PStr '' ok '')]" _ "'' ok ''"] s3
    by simp
  have e: "generate_answer_ollama (\<lambda>j. ''[]'') (\<lambda>p. JsonBody (PList [])) '' \<newline>'' ''q'' = Inr ''[]''"
    using generate_answer_fallback
      [of "\<lambda>j. ''[]''" "\<lambda>p. JsonBody (PList [])" "'' \<newline>''" "''q''" _ _ _ _ "PList []"]
    by simp
  from s1 a s2 b c d e show ?thesis
    by simp
qed

section \<open>Properties of the chunker\<close>

text \<open>With a positive step the loop ends: the distance from \<open>i\<close> to the end decreases.\<close>

lemma chunk_loop_returns:
  assumes "overlap < chunk_size"
  shows "\<exists>cs. chunk_loop mk words chunk_size overlap i chunk_id chunks = Some cs"
proof (induction "nat (int (length words) - i)" arbitrary: i chunk_id chunks rule: less_induct)
  case less
  show ?case
  proof (cases "i < int (length words)")
    case True
    have "nat (int (length words) - (i + (chunk_size - overlap))) < nat (int (length words) - i)"
      using True assms by linarith
    from less[OF this] show ?thesis
      using True by (subst chunk_loop.simps) (simp add: Let_def)
  next
    case False
    then show ?thesis
      by (subst chunk_loop.simps) simp
  qed
qed

lemma pages_loop_returns:
  assumes "overlap < chunk_size"
  shows "\<exists>cs. pages_loop stem name chunk_size overlap page_index pages chunks = Some cs"
proof (induction pages arbitrary: page_index chunks)
  case Nil
  then show ?case by simp
next
  case (Cons p pages)
  obtain native ocr where p: "p = (native, ocr)"
    by (cases p)
  have "\<exists>cs. page_chunks stem name chunk_size overlap page_index (page_text native ocr) chunks = Some cs"
    by (simp add: page_chunks_def chunk_loop_returns[OF assms])
  then obtain cs where
    "page_chunks stem name chunk_size overlap page_index (page_text native ocr) chunks = Some cs"
    by blast
  then show ?case
    using Cons p by simp
qed

text \<open>With a step that is not positive the loop never leaves a position inside the words.\<close>

lemma chunk_loop_Some_step:
  assumes "chunk_loop mk words chunk_size overlap i chunk_id chunks = Some cs"
  shows "\<not> (chunk_size \<le> overlap \<and> i < int (length words))"
proof (rule chunk_loop.raw_induct
    [where P = "\<lambda>mk words chunk_size overlap i chunk_id chunks cs.
                  \<not> (chunk_size \<le> overlap \<and> i < int (length words))", OF _ assms])
  fix f :: "(int \<Rightarrow> string \<Rightarrow> chunk) \<Rightarrow> string list \<Rightarrow> int \<Rightarrow> int \<Rightarrow> int \<Rightarrow> int \<Rightarrow> chunk list \<Rightarrow> chunk list option"
  fix mk words chunk_size overlap i chunk_id chunks cs
  assume IH: "\<And>mk words chunk_size overlap i chunk_id chunks cs.
      f mk words chunk_size overlap i chunk_id chunks = Some cs \<Longrightarrow>
      \<not> (chunk_size \<le> overlap \<and> i < int (length words))"
  assume step: "(if i < int (length words)
      then let end = i + chunk_size;
               chunk_text = py_strip (join '' '' (py_slice words i end))
           in f mk words chunk_size overlap (i + (chunk_size - overlap)) (chunk_id + 1)
                (if chunk_text \<noteq> [] then chunks @ [mk chunk_id chunk_text] else chunks)
      else Some chunks) = Some cs"
  show "\<not> (chunk_size \<le> overlap \<and> i < int (length words))"
  proof
    assume a: "chunk_size \<le> overlap \<and> i < int (length words)"
    with step obtain chunks' where
      "f mk words chunk_size overlap (i + (chunk_size - overlap)) (chunk_id + 1) chunks' = Some cs"
      by (auto simp: Let_def)
    from IH[OF this] a show False
      by linarith
  qed
qed

lemma chunk_loop_diverges:
  assumes "chunk_size \<le> overlap" and "i < int (length words)"
  shows "chunk_loop mk words chunk_size overlap i chunk_id chunks = None"
  using chunk_loop_Some_step[of mk words chunk_size overlap i chunk_id chunks] assms
  by (cases "chunk_loop mk words chunk_size overlap i chunk_id chunks") auto

text \<open>
  C10: when \<open>overlap < chunk_size\<close> the loop over the words ends, from any state, and so
  does the extraction of a whole document; when \<open>overlap \<ge> chunk_size\<close> and there is a
  word, the step \<open>chunk_size - overlap\<close> moves the position \<open>i\<close> no further and the loop
  that starts at 0 never returns.
\<close>

theorem chunk_loop_termination:
  "(overlap < chunk_size \<longrightarrow>
      (\<exists>cs. chunk_loop mk words chunk_size overlap i chunk_id chunks = Some cs)
      \<and> (\<exists>cs. extract_chunks_from_pdf_mupdf stem name pages chunk_size overlap = Some cs))
   \<and> (chunk_size \<le> overlap \<and> words \<noteq> [] \<longrightarrow>
        i + (chunk_size - overlap) \<le> i
        \<and> chunk_loop mk words chunk_size overlap 0 chunk_id chunks = None)"
  using chunk_loop_returns[of overlap chunk_size mk words i chunk_id chunks]
    pages_loop_returns[of overlap chunk_size stem name 0 pages "[]"]
    chunk_loop_diverges[of chunk_size overlap 0 words mk chunk_id chunks]
  by (simp add: extract_chunks_from_pdf_mupdf_def)

text \<open>
  C10 at the words \<open>a b c d\<close>: with chunks of 4 words and an overlap of 3 the loop
  returns four chunks; with an overlap of 4 it does not return.
\<close>

theorem chunk_loop_termination_witness:
  "(3::int) < 4
   \<and> chunk_loop (make_chunk ''doc'' ''doc.pdf'' 0) [''a'', ''b'', ''c'', ''d''] 4 3 0 0 []
       = Some [make_chunk ''doc'' ''doc.pdf'' 0 0 ''a b c d'', make_chunk ''doc'' ''doc.pdf'' 0 1 ''b c d'',
               make_chunk ''doc'' ''doc.pdf'' 0 2 ''c d'', make_chunk ''doc'' ''doc.pdf'' 0 3 ''d'']
   \<and> (\<exists>cs. extract_chunks_from_pdf_mupdf ''doc'' ''doc.pdf'' [(''a b c d'', OcrRaised)] 4 3 = Some cs)
   \<and> (4::int) \<le> 4 \<and> [''a'', ''b'', ''c'', ''d''] \<noteq> []
   \<and> chunk_loop (make_chunk ''doc'' ''doc.pdf'' 0) [''a'', ''b'', ''c'', ''d''] 4 4 0 0 [] = None"
proof -
  have "chunk_loop (make_chunk ''doc'' ''doc.pdf'' 0) [''a'', ''b'', ''c'', ''d''] 4 3 0 0 []
       = Some [make_chunk ''doc'' ''doc.pdf'' 0 0 ''a b c d'', make_chunk ''doc'' ''doc.pdf'' 0 1 ''b c d'',
               make_chunk ''doc'' ''doc.pdf'' 0 2 ''c d'', make_chunk ''doc'' ''doc.pdf'' 0 3 ''d'']"
    by code_simp
  then show ?thesis
    using chunk_loop_termination
        [of 3 4 "make_chunk ''doc'' ''doc.pdf'' 0" "[''a'', ''b'', ''c'', ''d'']" 0 0 "[]"
           "''doc''" "''doc.pdf''" "[(''a b c d'', OcrRaised)]"]
      chunk_loop_termination
        [of 4 4 "make_chunk ''doc'' ''doc.pdf'' 0" "[''a'', ''b'', ''c'', ''d'']" 0 0 "[]"]
    by simp
qed

text \<open>The number of windows: there is one at each offset inside the words.\<close>

lemma n_windows_less: "0 < step \<Longrightarrow> j < n_windows N step \<longleftrightarrow> j * step < N"
proof -
  assume s: "0 < step"
  have "j < n_windows N step \<longleftrightarrow> Suc j \<le> (N + step - 1) div step"
    by (simp add: n_windows_def Suc_le_eq)
  also have "\<dots> \<longleftrightarrow> Suc j * step \<le> N + step - 1"
    using s by (simp add: less_eq_div_iff_mult_less_eq)
  also have "\<dots> \<longleftrightarrow> j * step < N"
    using s by auto
  finally show ?thesis .
qed

lemma py_slice_window: "py_slice ws (int a) (int a + int S) = take S (drop a ws)"
  by (auto simp: py_slice_def Let_def min_def)

lemma chunk_loop_windows:
  assumes "ov < S"
  shows "chunk_loop mk ws (int S) (int ov) (int (j * (S - ov))) (int j) chunks
    = Some (chunks @ map (\<lambda>k. mk (int k) (window_text ws S (S - ov) k))
                       (filter (\<lambda>k. window_text ws S (S - ov) k \<noteq> [])
                          [j..<n_windows (length ws) (S - ov)]))"
proof (induction "n_windows (length ws) (S - ov) - j" arbitrary: j chunks)
  case 0
  then have n: "\<not> j < n_windows (length ws) (S - ov)"
    by simp
  then have "\<not> j * (S - ov) < length ws"
    using assms by (simp add: n_windows_less)
  then have c: "\<not> int (j * (S - ov)) < int (length ws)"
    by (simp only: of_nat_less_iff not_False_eq_True)
  have e: "[j..<n_windows (length ws) (S - ov)] = []"
    using n by simp
  show ?case
    by (subst chunk_loop.simps) (simp only: c if_False e list.map filter.simps append_Nil2)
next
  case (Suc d)
  then have lt: "j < n_windows (length ws) (S - ov)"
    by simp
  then have i: "j * (S - ov) < length ws"
    using assms by (simp add: n_windows_less)
  have d: "d = n_windows (length ws) (S - ov) - Suc j"
    using Suc(2) by simp
  have next_i: "int (j * (S - ov)) + (int S - int ov) = int (Suc j * (S - ov))"
  proof -
    have a: "int S - int ov = int (S - ov)"
      using assms by simp
    have b: "int (j * (S - ov)) + int (S - ov) = int (Suc j * (S - ov))"
      by simp
    show ?thesis
      unfolding a by (rule b)
  qed
  have upt: "[j..<n_windows (length ws) (S - ov)] = j # [Suc j..<n_windows (length ws) (S - ov)]"
    using lt by (simp add: upt_conv_Cons)
  have wt: "py_strip (join '' '' (py_slice ws (int (j * (S - ov))) (int (j * (S - ov)) + int S)))
      = window_text ws S (S - ov) j"
    by (simp only: py_slice_window window_text_def window_def)
  have c: "int (j * (S - ov)) < int (length ws)"
    using i by (simp only: of_nat_less_iff)
  have cid: "int j + 1 = int (Suc j)"
    by simp
  show ?case
    apply (subst chunk_loop.simps)
    apply (simp only: Let_def wt next_i c if_True cid)
    apply (subst Suc(1)[OF d])
    apply (simp add: upt)
    done
qed


lemma split_ws_words:
  "\<forall>c \<in> set cur. \<not> is_space c \<Longrightarrow> \<forall>w \<in> set (split_ws cur s). is_word w"
proof (induction s arbitrary: cur)
  case Nil
  then show ?case
    by (auto simp: is_word_def)
next
  case (Cons c s)
  have a: "\<forall>w \<in> set (split_ws [] s). is_word w"
    using Cons.IH[of "[]"] by simp
  have b: "\<not> is_space c \<Longrightarrow> \<forall>w \<in> set (split_ws (cur @ [c]) s). is_word w"
    using Cons.IH[of "cur @ [c]"] Cons.prems by simp
  have "cur \<noteq> [] \<Longrightarrow> is_word cur"
    using Cons.prems by (simp add: is_word_def)
  with a b show ?case
    by auto
qed

lemma py_split_words: "\<forall>w \<in> set (py_split s). is_word w"
  using split_ws_words[of "[]" s] by (simp add: py_split_def)

lemma split_ws_word:
  "\<forall>c \<in> set w. \<not> is_space c \<Longrightarrow> split_ws cur (w @ rest) = split_ws (cur @ w) rest"
  by (induction w arbitrary: cur) auto

lemma split_ws_join:
  "\<forall>w \<in> set ws. is_word w \<Longrightarrow> split_ws [] (join '' '' ws) = ws"
proof (induction "'' ''" ws rule: join.induct)
  case 1
  then show ?case by simp
next
  case (2 w)
  then show ?case
    using split_ws_word[of w "[]" "[]"] by (simp add: is_word_def)
next
  case (3 w v ws)
  have sp: "is_space CHR '' ''"
    by (simp add: is_space_def)
  have "split_ws [] (w @ '' '' @ join '' '' (v # ws)) = split_ws w ('' '' @ join '' '' (v # ws))"
    using 3(2) split_ws_word[of w "[]"] by (simp add: is_word_def)
  also have "\<dots> = w # split_ws [] (join '' '' (v # ws))"
    using 3(2) sp by (simp add: is_word_def)
  finally show ?case
    using 3 by simp
qed

lemma py_split_join: "\<forall>w \<in> set ws. is_word w \<Longrightarrow> py_split (join '' '' ws) = ws"
  by (simp add: py_split_def split_ws_join)

lemma py_strip_id: "s \<noteq> [] \<Longrightarrow> \<not> is_space (hd s) \<Longrightarrow> \<not> is_space (last s) \<Longrightarrow> py_strip s = s"
proof -
  assume a: "s \<noteq> []" "\<not> is_space (hd s)" "\<not> is_space (last s)"
  then have "dropWhile is_space s = s"
    by (cases s) auto
  moreover have "dropWhile is_space (rev s) = rev s"
    using a by (cases "rev s") (auto simp: hd_rev)
  ultimately show ?thesis
    by (simp add: py_strip_def)
qed

lemma join_words:
  "ws \<noteq> [] \<Longrightarrow> \<forall>w \<in> set ws. is_word w \<Longrightarrow>
   join sep ws \<noteq> [] \<and> hd (join sep ws) = hd (hd ws) \<and> last (join sep ws) = last (last ws)"
  by (induction sep ws rule: join.induct) (auto simp: is_word_def)

lemma py_strip_join_words:
  assumes "ws \<noteq> []" and "\<forall>w \<in> set ws. is_word w"
  shows "py_strip (join sep ws) = join sep ws" and "join sep ws \<noteq> []"
proof -
  from join_words[OF assms] have j: "join sep ws \<noteq> []" "hd (join sep ws) = hd (hd ws)"
    "last (join sep ws) = last (last ws)"
    by auto
  have "is_word (hd ws)" "is_word (last ws)"
    using assms by auto
  then have "\<not> is_space (hd (hd ws))" "\<not> is_space (last (last ws))"
    by (auto simp: is_word_def)
  with j show "py_strip (join sep ws) = join sep ws"
    by (simp add: py_strip_id)
  show "join sep ws \<noteq> []"
    by (rule j(1))
qed

lemma split_ws_blank: "\<forall>c \<in> set s. is_space c \<Longrightarrow> split_ws [] s = []"
  by (induction s) auto

lemma take_min_length: "take (min n (length xs)) xs = take n xs"
  by (simp add: min_def)

lemma window_step:
  "ov < S \<Longrightarrow> a + (S - ov) < N \<Longrightarrow> min S (N - a) - min ov (N - (a + (S - ov))) = S - (ov::nat)"
  by (auto simp: min_def)

lemma window_share:
  assumes "ov < S" and "Suc k * (S - ov) < length W"
  shows "min ov (length (window W S (S - ov) (Suc k))) \<le> length (window W S (S - ov) k)"
    and "drop (length (window W S (S - ov) k) - min ov (length (window W S (S - ov) (Suc k))))
           (window W S (S - ov) k)
         = take (min ov (length (window W S (S - ov) (Suc k)))) (window W S (S - ov) (Suc k))"
proof -
  define st where "st = S - ov"
  define a where "a = k * st"
  have lt: "a + st < length W"
    using assms(2) by (simp add: a_def st_def add.commute)
  have la: "length (window W S st k) = min S (length W - a)"
    by (simp add: window_def a_def)
  have lb: "length (window W S st (Suc k)) = min S (length W - (a + st))"
    by (simp add: window_def a_def add.commute)
  have m: "min ov (length (window W S st (Suc k))) = min ov (length W - (a + st))"
    using assms(1) by (simp add: lb)
  have d: "length (window W S st k) - min ov (length W - (a + st)) = st"
    using window_step[OF assms(1), of a "length W"] lt by (simp add: la[unfolded st_def] st_def)
  show "min ov (length (window W S (S - ov) (Suc k))) \<le> length (window W S (S - ov) k)"
    using assms(1) lt by (auto simp: la lb st_def[symmetric] min_def)
  have "drop st (window W S st k) = take ov (drop (a + st) W)"
    using assms(1) by (simp add: window_def a_def drop_take st_def add.commute)
  also have "\<dots> = take (min ov (length (drop (a + st) W))) (drop (a + st) W)"
    by (simp only: take_min_length)
  also have "\<dots> = take (min ov (length W - (a + st))) (window W S st (Suc k))"
    using assms(1) by (simp add: window_def a_def add.commute)
  finally show "drop (length (window W S (S - ov) k) - min ov (length (window W S (S - ov) (Suc k))))
           (window W S (S - ov) k)
         = take (min ov (length (window W S (S - ov) (Suc k)))) (window W S (S - ov) (Suc k))"
    by (simp only: st_def[symmetric] m d)
qed


lemma length_window: "length (window W S st k) = min S (length W - k * st)"
  by (simp add: window_def)

lemma window_full_next:
  "ov < S \<Longrightarrow> min S (N - a) = S \<Longrightarrow> ov \<le> min S (N - (a + (S - ov)))" for ov :: nat
  by (auto simp: min_def split: if_splits)

lemma window_facts:
  assumes "ov < S" and "k < n_windows (length W) (S - ov)"
  shows "window W S (S - ov) k \<noteq> []" and "length (window W S (S - ov) k) \<le> S"
    and "set (window W S (S - ov) k) \<subseteq> set W"
proof -
  have "k * (S - ov) < length W"
    using assms by (simp add: n_windows_less)
  then show "window W S (S - ov) k \<noteq> []"
    using assms(1) by (simp add: window_def)
  show "length (window W S (S - ov) k) \<le> S"
    by (simp add: window_def)
  show "set (window W S (S - ov) k) \<subseteq> set W"
    unfolding window_def
    by (meson set_take_subset set_drop_subset subset_trans)
qed

lemma window_text_words:
  assumes "ov < S" and "k < n_windows (length W) (S - ov)" and "\<forall>w \<in> set W. is_word w"
  shows "window_text W S (S - ov) k = join '' '' (window W S (S - ov) k)"
    and "window_text W S (S - ov) k \<noteq> []"
    and "py_split (join '' '' (window W S (S - ov) k)) = window W S (S - ov) k"
proof -
  have w: "\<forall>w \<in> set (window W S (S - ov) k). is_word w"
    using window_facts(3)[OF assms(1,2)] assms(3) by blast
  have ne: "window W S (S - ov) k \<noteq> []"
    by (rule window_facts(1)[OF assms(1,2)])
  show "window_text W S (S - ov) k = join '' '' (window W S (S - ov) k)"
    by (simp add: window_text_def py_strip_join_words(1)[OF ne w])
  then show "window_text W S (S - ov) k \<noteq> []"
    by (simp add: py_strip_join_words(2)[OF ne w])
  show "py_split (join '' '' (window W S (S - ov) k)) = window W S (S - ov) k"
    by (rule py_split_join[OF w])
qed

lemma py_split_Nil: "py_strip s = [] \<Longrightarrow> py_split s = []"
  by (simp add: py_split_def split_ws_blank py_strip_Nil_iff)

lemma page_chunks_windows:
  assumes "ov < S" and "py_split text \<noteq> []"
  shows "page_chunks stem name (int S) (int ov) page_index text []
    = Some (map (\<lambda>k. make_chunk stem name page_index (int k)
                        (join '' '' (window (py_split text) S (S - ov) k)))
              [0..<n_windows (length (py_split text)) (S - ov)])"
proof -
  let ?W = "py_split text"
  let ?n = "n_windows (length ?W) (S - ov)"
  have ne: "py_strip text \<noteq> []"
    using assms(2) py_split_Nil by blast
  have all: "\<forall>k \<in> set [0..<?n]. window_text ?W S (S - ov) k \<noteq> []
      \<and> window_text ?W S (S - ov) k = join '' '' (window ?W S (S - ov) k)"
    using window_text_words(1,2)[OF assms(1) _ py_split_words] by simp
  have f: "filter (\<lambda>k. window_text ?W S (S - ov) k \<noteq> []) [0..<?n] = [0..<?n]"
  proof (rule filter_True)
    show "\<forall>k \<in> set [0..<?n]. window_text ?W S (S - ov) k \<noteq> []"
      using all by blast
  qed
  have m: "map (\<lambda>k. make_chunk stem name page_index (int k) (window_text ?W S (S - ov) k)) [0..<?n]
      = map (\<lambda>k. make_chunk stem name page_index (int k) (join '' '' (window ?W S (S - ov) k))) [0..<?n]"
    using all by (simp add: map_eq_conv)
  have "chunk_loop (make_chunk stem name page_index) ?W (int S) (int ov) 0 0 []
      = Some (map (\<lambda>k. make_chunk stem name page_index (int k) (window_text ?W S (S - ov) k))
                (filter (\<lambda>k. window_text ?W S (S - ov) k \<noteq> []) [0..<?n]))"
    using chunk_loop_windows[OF assms(1), of "make_chunk stem name page_index" ?W 0 "[]"] by simp
  then show ?thesis
    using ne by (simp only: page_chunks_def f m if_False)
qed

lemma share_words_windows:
  assumes "ov < S" and "Suc k < n_windows (length W) (S - ov)" and "\<forall>w \<in> set W. is_word w"
  shows "share_words (min ov (length (window W S (S - ov) (Suc k))))
           (join '' '' (window W S (S - ov) k)) (join '' '' (window W S (S - ov) (Suc k)))"
    and "length (window W S (S - ov) k) = S \<Longrightarrow>
         share_words ov (join '' '' (window W S (S - ov) k)) (join '' '' (window W S (S - ov) (Suc k)))"
proof -
  have k: "k < n_windows (length W) (S - ov)"
    using assms(2) by simp
  have lt: "Suc k * (S - ov) < length W"
    using assms(1,2) by (simp add: n_windows_less)
  have sa: "py_split (join '' '' (window W S (S - ov) k)) = window W S (S - ov) k"
    by (rule window_text_words(3)[OF assms(1) k assms(3)])
  have sb: "py_split (join '' '' (window W S (S - ov) (Suc k))) = window W S (S - ov) (Suc k)"
    by (rule window_text_words(3)[OF assms(1,2,3)])
  show g: "share_words (min ov (length (window W S (S - ov) (Suc k))))
           (join '' '' (window W S (S - ov) k)) (join '' '' (window W S (S - ov) (Suc k)))"
    using window_share[OF assms(1) lt] by (simp add: share_words_def sa sb Let_def)
  assume full: "length (window W S (S - ov) k) = S"
  have "ov \<le> min S (length W - (k * (S - ov) + (S - ov)))"
    using window_full_next[OF assms(1), of "length W" "k * (S - ov)"] full
    by (simp add: length_window)
  moreover have "Suc k * (S - ov) = k * (S - ov) + (S - ov)"
    by simp
  ultimately have "ov \<le> length (window W S (S - ov) (Suc k))"
    by (simp only: length_window)
  then have "min ov (length (window W S (S - ov) (Suc k))) = ov"
    by simp
  with g show "share_words ov (join '' '' (window W S (S - ov) k)) (join '' '' (window W S (S - ov) (Suc k)))"
    by simp
qed


text \<open>
  C6, as stated, fails where more than one chunk at the end of a page is short. The page
  \<open>a b c d\<close> with chunks of 4 words and an overlap of 3 gives four chunks; the second and
  the third, neither of them the last, share two words and not three.
\<close>

theorem chunk_overlap_counterexample:
  "page_chunks ''doc'' ''doc.pdf'' 4 3 0 ''a b c d'' []
     = Some [make_chunk ''doc'' ''doc.pdf'' 0 0 ''a b c d'', make_chunk ''doc'' ''doc.pdf'' 0 1 ''b c d'',
             make_chunk ''doc'' ''doc.pdf'' 0 2 ''c d'', make_chunk ''doc'' ''doc.pdf'' 0 3 ''d'']
   \<and> \<not> share_words 3 ''b c d'' ''c d''"
  by code_simp

text \<open>
  C6, amended: for chunks of \<open>S\<close> words and an overlap \<open>ov < S\<close>, the loop over any list of
  words emits, numbered by \<open>k\<close>, the texts of the windows at the offsets \<open>k * (S - ov)\<close>
  below the number of words, without those that are empty once trimmed. For a page text
  with at least one word every window is emitted: the chunk \<open>k\<close> is made of the at most
  \<open>S\<close> words from the offset \<open>k * (S - ov)\<close> on. Two consecutive chunks share exactly
  \<open>ov\<close> words when the first of them has \<open>S\<close> words; after a shorter chunk the next one
  shares all of its words, fewer than \<open>ov\<close>, so that several chunks at the end of a page
  can be short.
\<close>

theorem chunk_windows:
  assumes "ov < S"
  shows "(\<forall>k. k < n_windows (length ws) (S - ov) \<longleftrightarrow> k * (S - ov) < length ws)
   \<and> chunk_loop mk ws (int S) (int ov) 0 0 []
       = Some (map (\<lambda>k. mk (int k) (window_text ws S (S - ov) k))
                 (filter (\<lambda>k. window_text ws S (S - ov) k \<noteq> [])
                    [0..<n_windows (length ws) (S - ov)]))
   \<and> (py_split text \<noteq> [] \<longrightarrow>
        page_chunks stem name (int S) (int ov) page_index text []
          = Some (map (\<lambda>k. make_chunk stem name page_index (int k)
                              (join '' '' (window (py_split text) S (S - ov) k)))
                    [0..<n_windows (length (py_split text)) (S - ov)])
        \<and> (\<forall>k < n_windows (length (py_split text)) (S - ov).
              py_split (join '' '' (window (py_split text) S (S - ov) k))
                = take S (drop (k * (S - ov)) (py_split text))
              \<and> 1 \<le> length (window (py_split text) S (S - ov) k)
              \<and> length (window (py_split text) S (S - ov) k) \<le> S)
        \<and> (\<forall>k. Suc k < n_windows (length (py_split text)) (S - ov) \<longrightarrow>
              share_words (min ov (length (window (py_split text) S (S - ov) (Suc k))))
                (join '' '' (window (py_split text) S (S - ov) k))
                (join '' '' (window (py_split text) S (S - ov) (Suc k)))
              \<and> (length (window (py_split text) S (S - ov) k) = S \<longrightarrow>
                   share_words ov
                     (join '' '' (window (py_split text) S (S - ov) k))
                     (join '' '' (window (py_split text) S (S - ov) (Suc k))))))"
proof (intro conjI impI allI)
  fix k
  show "k < n_windows (length ws) (S - ov) \<longleftrightarrow> k * (S - ov) < length ws"
    using assms by (simp add: n_windows_less)
next
  show "chunk_loop mk ws (int S) (int ov) 0 0 []
       = Some (map (\<lambda>k. mk (int k) (window_text ws S (S - ov) k))
                 (filter (\<lambda>k. window_text ws S (S - ov) k \<noteq> [])
                    [0..<n_windows (length ws) (S - ov)]))"
    using chunk_loop_windows[OF assms, of mk ws 0 "[]"] by simp
next
  assume "py_split text \<noteq> []"
  then show "page_chunks stem name (int S) (int ov) page_index text []
          = Some (map (\<lambda>k. make_chunk stem name page_index (int k)
                              (join '' '' (window (py_split text) S (S - ov) k)))
                    [0..<n_windows (length (py_split text)) (S - ov)])"
    by (rule page_chunks_windows[OF assms])
next
  fix k
  assume k: "k < n_windows (length (py_split text)) (S - ov)"
  show "py_split (join '' '' (window (py_split text) S (S - ov) k))
                = take S (drop (k * (S - ov)) (py_split text))"
    using window_text_words(3)[OF assms k py_split_words] by (simp add: window_def)
  show "1 \<le> length (window (py_split text) S (S - ov) k)"
    using window_facts(1)[OF assms k] by (simp add: Suc_le_eq)
  show "length (window (py_split text) S (S - ov) k) \<le> S"
    by (rule window_facts(2)[OF assms k])
next
  fix k
  assume k: "Suc k < n_windows (length (py_split text)) (S - ov)"
  show "share_words (min ov (length (window (py_split text) S (S - ov) (Suc k))))
                (join '' '' (window (py_split text) S (S - ov) k))
                (join '' '' (window (py_split text) S (S - ov) (Suc k)))"
    by (rule share_words_windows(1)[OF assms k py_split_words])
  assume "length (window (py_split text) S (S - ov) k) = S"
  then show "share_words ov
                     (join '' '' (window (py_split text) S (S - ov) k))
                     (join '' '' (window (py_split text) S (S - ov) (Suc k)))"
    by (rule share_words_windows(2)[OF assms k py_split_words])
qed

text \<open>
  C6, amended, for chunks of 3 words with an overlap of 1: the page \<open>a b c d e\<close> gives
  three chunks that share one word each, and of the windows of three blanks and a word
  the first is dropped and the second keeps the number 1.
\<close>

theorem chunk_windows_witness:
  "(1::nat) < 3
   \<and> py_split ''a b c d e'' \<noteq> []
   \<and> chunk_loop (make_chunk ''doc'' ''doc.pdf'' 0) ['' '', '' '', '' '', ''b''] 3 1 0 0 []
       = Some [make_chunk ''doc'' ''doc.pdf'' 0 1 ''b'']
   \<and> page_chunks ''doc'' ''doc.pdf'' 3 1 0 ''a b c d e'' []
       = Some [make_chunk ''doc'' ''doc.pdf'' 0 0 ''a b c'', make_chunk ''doc'' ''doc.pdf'' 0 1 ''c d e'',
               make_chunk ''doc'' ''doc.pdf'' 0 2 ''e'']
   \<and> share_words 1 ''a b c'' ''c d e''
   \<and> share_words 1 ''c d e'' ''e''"
proof -
  have h: "(1::nat) < 3"
    by simp
  have ps: "py_split ''a b c d e'' \<noteq> []"
    by (simp add: py_split_def is_space_def)
  note t = chunk_windows[OF h, of "['' '', '' '', '' '', ''b'']" "make_chunk ''doc'' ''doc.pdf'' 0"
      "''a b c d e''" "''doc''" "''doc.pdf''" 0]
  have r1: "map (\<lambda>k. make_chunk ''doc'' ''doc.pdf'' 0 (int k)
                      (window_text ['' '', '' '', '' '', ''b''] 3 (3 - 1) k))
              (filter (\<lambda>k. window_text ['' '', '' '', '' '', ''b''] 3 (3 - 1) k \<noteq> [])
                 [0..<n_windows (length ['' '', '' '', '' '', ''b'']) (3 - 1)])
            = [make_chunk ''doc'' ''doc.pdf'' 0 1 ''b'']"
    by code_simp
  have r2: "map (\<lambda>k. make_chunk ''doc'' ''doc.pdf'' 0 (int k)
                      (join '' '' (window (py_split ''a b c d e'') 3 (3 - 1) k)))
              [0..<n_windows (length (py_split ''a b c d e'')) (3 - 1)]
            = [make_chunk ''doc'' ''doc.pdf'' 0 0 ''a b c'', make_chunk ''doc'' ''doc.pdf'' 0 1 ''c d e'',
               make_chunk ''doc'' ''doc.pdf'' 0 2 ''e'']"
    by code_simp
  from t have "chunk_loop (make_chunk ''doc'' ''doc.pdf'' 0) ['' '', '' '', '' '', ''b''] (int 3) (int 1) 0 0 []
       = Some [make_chunk ''doc'' ''doc.pdf'' 0 1 ''b'']"
    unfolding r1 by blast
  then have loop: "chunk_loop (make_chunk ''doc'' ''doc.pdf'' 0) ['' '', '' '', '' '', ''b''] 3 1 0 0 []
       = Some [make_chunk ''doc'' ''doc.pdf'' 0 1 ''b'']"
    by simp
  from t ps have "page_chunks ''doc'' ''doc.pdf'' (int 3) (int 1) 0 ''a b c d e'' []
       = Some [make_chunk ''doc'' ''doc.pdf'' 0 0 ''a b c'', make_chunk ''doc'' ''doc.pdf'' 0 1 ''c d e'',
               make_chunk ''doc'' ''doc.pdf'' 0 2 ''e'']"
    unfolding r2 by blast
  then have page: "page_chunks ''doc'' ''doc.pdf'' 3 1 0 ''a b c d e'' []
       = Some [make_chunk ''doc'' ''doc.pdf'' 0 0 ''a b c'', make_chunk ''doc'' ''doc.pdf'' 0 1 ''c d e'',
               make_chunk ''doc'' ''doc.pdf'' 0 2 ''e'']"
    by simp
  have sh: "share_words 1 ''a b c'' ''c d e''" "share_words 1 ''c d e'' ''e''"
    by code_simp+
  from h ps loop page sh show ?thesis
    by blast
qed

section \<open>Properties of the embedder\<close>

lemma sleep_overflows_pow: "sleep_overflows (2 ^ k) \<longleftrightarrow> 34 \<le> k"
proof (cases "k \<le> 33")
  case True
  then have "(2::nat) ^ k \<le> 2 ^ 33"
    by (intro power_increasing) simp_all
  then have "(2::nat) ^ k * 1000000000 \<le> 2 ^ 33 * 1000000000"
    by simp
  also have "\<dots> \<le> 2 ^ 63 - 1"
    by simp
  finally show ?thesis
    using True by (simp add: sleep_overflows_def)
next
  case False
  then have "(2::nat) ^ 34 \<le> 2 ^ k"
    by (intro power_increasing) simp_all
  then have "(2::nat) ^ 34 * 1000000000 \<le> 2 ^ k * 1000000000"
    by simp
  moreover have "(2::nat) ^ 63 - 1 < 2 ^ 34 * 1000000000"
    by simp
  ultimately have "(2::nat) ^ 63 - 1 < 2 ^ k * 1000000000"
    by linarith
  then show ?thesis
    using False by (simp add: sleep_overflows_def)
qed

lemma sleep_overflows_double: "sleep_overflows (2 * 2 ^ a) \<longleftrightarrow> 33 \<le> a"
  using sleep_overflows_pow[of "Suc a"] by simp

lemma groq_loop_stop:
  "stops MAX_RETRIES post (Suc a) \<Longrightarrow>
   groq_loop MAX_RETRIES post a slept
     = \<lparr>outcome = try_body (post (Suc a)), sleeps = slept, attempts = Suc a\<rparr>"
  by (subst groq_loop.simps) (auto simp: stops_def Let_def split: sum.splits)

lemma groq_loop_continue:
  "\<not> stops MAX_RETRIES post (Suc a) \<Longrightarrow> Suc a < 34 \<Longrightarrow>
   groq_loop MAX_RETRIES post a slept = groq_loop MAX_RETRIES post (Suc a) (slept @ [2 ^ Suc a])"
  by (subst groq_loop.simps) (auto simp: stops_def Let_def sleep_overflows_double split: sum.splits)

lemma groq_loop_overflow:
  "\<not> stops MAX_RETRIES post (Suc a) \<Longrightarrow> 34 \<le> Suc a \<Longrightarrow>
   groq_loop MAX_RETRIES post a slept
     = \<lparr>outcome = Inl OverflowError, sleeps = slept, attempts = Suc a\<rparr>"
  by (subst groq_loop.simps) (auto simp: stops_def Let_def sleep_overflows_double split: sum.splits)

text \<open>
  The loop from the counter \<open>a\<close> on, when the requests before the \<open>n\<close>-th are retried and
  their backoffs are accepted: the \<open>n\<close>-th request ends it, or its backoff is refused.
\<close>

lemma groq_loop_run:
  assumes "a < n" and "n \<le> 34" and "\<forall>k. a < k \<and> k < n \<longrightarrow> \<not> stops MAX_RETRIES post k"
  shows "groq_loop MAX_RETRIES post a slept
     = (if stops MAX_RETRIES post n
        then \<lparr>outcome = try_body (post n), sleeps = slept @ map (\<lambda>k. 2 ^ k) [Suc a..<n], attempts = n\<rparr>
        else if n = 34
        then \<lparr>outcome = Inl OverflowError, sleeps = slept @ map (\<lambda>k. 2 ^ k) [Suc a..<n], attempts = n\<rparr>
        else groq_loop MAX_RETRIES post n (slept @ map (\<lambda>k. 2 ^ k) [Suc a..<Suc n]))"
  using assms
proof (induction "n - a" arbitrary: a slept)
  case 0
  then show ?case by simp
next
  case (Suc d)
  show ?case
  proof (cases "Suc a = n")
    case True
    show ?thesis
    proof (cases "stops MAX_RETRIES post n")
      case s: True
      then show ?thesis
        using True by (simp add: groq_loop_stop)
    next
      case s: False
      show ?thesis
      proof (cases "n = 34")
        case True
        then show ?thesis
          using s \<open>Suc a = n\<close> groq_loop_overflow[of MAX_RETRIES post a slept] by simp
      next
        case False
        then have "Suc a < 34"
          using \<open>Suc a = n\<close> Suc.prems(2) by simp
        then show ?thesis
          using s \<open>Suc a = n\<close> False groq_loop_continue[of MAX_RETRIES post a slept] by simp
      qed
    qed
  next
    case False
    then have lt: "Suc a < n"
      using Suc.prems(1) by simp
    then have ns: "\<not> stops MAX_RETRIES post (Suc a)"
      using Suc.prems(3) by simp
    have "Suc a < 34"
      using lt Suc.prems(2) by simp
    with ns have "groq_loop MAX_RETRIES post a slept
        = groq_loop MAX_RETRIES post (Suc a) (slept @ [2 ^ Suc a])"
      by (rule groq_loop_continue)
    also have "\<dots> = (if stops MAX_RETRIES post n
        then \<lparr>outcome = try_body (post n),
              sleeps = (slept @ [2 ^ Suc a]) @ map (\<lambda>k. 2 ^ k) [Suc (Suc a)..<n], attempts = n\<rparr>
        else if n = 34
        then \<lparr>outcome = Inl OverflowError,
              sleeps = (slept @ [2 ^ Suc a]) @ map (\<lambda>k. 2 ^ k) [Suc (Suc a)..<n], attempts = n\<rparr>
        else groq_loop MAX_RETRIES post n
               ((slept @ [2 ^ Suc a]) @ map (\<lambda>k. 2 ^ k) [Suc (Suc a)..<Suc n]))"
      using Suc.hyps(2) Suc.prems(2,3) lt by (intro Suc.hyps(1)) auto
    also have "(slept @ [2 ^ Suc a]) @ map (\<lambda>k. 2 ^ k) [Suc (Suc a)..<n]
        = slept @ map (\<lambda>k. 2 ^ k) [Suc a..<n]"
      using lt by (simp add: upt_conv_Cons)
    also have "(slept @ [2 ^ Suc a]) @ map (\<lambda>k. 2 ^ k) [Suc (Suc a)..<Suc n]
        = slept @ map (\<lambda>k. 2 ^ k) [Suc a..<Suc n]"
      using lt by (simp add: upt_conv_Cons del: upt_Suc)
    finally show ?thesis .
  qed
qed

lemma transient_continues:
  "transient (post k) \<Longrightarrow> int k < MAX_RETRIES \<Longrightarrow> \<not> stops MAX_RETRIES post k"
  by (cases "post k") (auto simp: stops_def try_body_def)

lemma transient_fails:
  "transient r \<Longrightarrow> \<exists>e. try_body r = Inl e \<and> \<not> raised_at_once e"
  by (cases r) (auto simp: try_body_def)

lemma groq_embed_one_run:
  assumes "1 \<le> n" and "\<forall>k. 1 \<le> k \<and> k < n \<longrightarrow> transient (post k)"
    and "int n \<le> max 1 MAX_RETRIES" and "n \<le> 34" and "stops MAX_RETRIES post n"
  shows "groq_embed_one MAX_RETRIES post
     = \<lparr>outcome = try_body (post n), sleeps = map (\<lambda>k. 2 ^ k) [1..<n], attempts = n\<rparr>"
proof -
  have "\<forall>k. 0 < k \<and> k < n \<longrightarrow> \<not> stops MAX_RETRIES post k"
  proof (intro allI impI)
    fix k
    assume k: "0 < k \<and> k < n"
    then have "int k < MAX_RETRIES"
      using assms(3) by linarith
    moreover have "transient (post k)"
      using k assms(2) by simp
    ultimately show "\<not> stops MAX_RETRIES post k"
      by (simp add: transient_continues)
  qed
  from groq_loop_run[OF _ assms(4) this, of "[]"] assms(1,5) show ?thesis
    by (simp add: groq_embed_one_def)
qed

lemmas groq_defs =
  groq_embed_one_def try_body_def parse_embedding_def from_data_list_def py_or_def dict_get_def

text \<open>
  C2, as stated, fails: 429 is a status from 400 to 499, and the handler raises it at
  once. With \<open>MAX_RETRIES = 3\<close> and the status 429 on the first two requests, the call
  raises \<open>HTTPError\<close> after one request and never sees the third response.
\<close>

theorem groq_429_counterexample:
  "groq_embed_one 3
     (\<lambda>k. if k < 3 then Response 429 None
          else Response 200 (Some (PDict [(''data'', PList [PDict [(''embedding'', PList [PFloat 1, PFloat 2])]])])))
   = \<lparr>outcome = Inl (HTTPError 429), sleeps = [], attempts = 1\<rparr>"
  by (simp add: groq_embed_one_def groq_loop.simps try_body_def)

text \<open>
  C2, amended: with \<open>MAX_RETRIES = 3\<close>, when the first two requests fail with a network
  error or a status from 500 to 599 and the third has the status 200 and a valid
  embedding, the call returns this vector, raises nothing, and has slept 2 and 4 seconds;
  a first response with the status 429 is raised at once.
\<close>

theorem groq_retry_then_ok:
  "(transient (post 1) \<and> transient (post 2) \<and> post 3 = Response 200 (Some data)
      \<and> parse_embedding data = Inr vec \<longrightarrow>
      groq_embed_one 3 post = \<lparr>outcome = Inr vec, sleeps = [2, 4], attempts = 3\<rparr>)
   \<and> (post 1 = Response 429 body \<longrightarrow>
        groq_embed_one MAX_RETRIES post = \<lparr>outcome = Inl (HTTPError 429), sleeps = [], attempts = 1\<rparr>)"
proof (intro conjI impI)
  assume a: "transient (post 1) \<and> transient (post 2) \<and> post 3 = Response 200 (Some data)
      \<and> parse_embedding data = Inr vec"
  have t: "\<forall>k. 1 \<le> k \<and> k < 3 \<longrightarrow> transient (post k)"
  proof (intro allI impI)
    fix k :: nat
    assume "1 \<le> k \<and> k < 3"
    then have "k = 1 \<or> k = 2"
      by auto
    with a show "transient (post k)"
      by auto
  qed
  have ok: "try_body (post 3) = Inr vec"
    using a by (simp add: try_body_def)
  then have "stops 3 post 3"
    by (simp add: stops_def)
  from groq_embed_one_run[OF _ t _ _ this] ok
  show "groq_embed_one 3 post = \<lparr>outcome = Inr vec, sleeps = [2, 4], attempts = 3\<rparr>"
    by (simp add: upt_rec)
next
  assume "post 1 = Response 429 body"
  then show "groq_embed_one MAX_RETRIES post
      = \<lparr>outcome = Inl (HTTPError 429), sleeps = [], attempts = 1\<rparr>"
    by (simp add: groq_embed_one_def groq_loop.simps try_body_def)
qed

text \<open>C2, amended, at the statuses 503, 503, 200 and at the statuses 429, 429, 200.\<close>

theorem groq_retry_then_ok_witness:
  "transient (Response 503 None)
   \<and> parse_embedding (PDict [(''data'', PList [PDict [(''embedding'', PList [PFloat 1, PFloat 2])]])])
       = Inr (PList [PFloat 1, PFloat 2])
   \<and> groq_embed_one 3
       (\<lambda>k. if k < 3 then Response 503 None
            else Response 200 (Some (PDict [(''data'', PList [PDict [(''embedding'', PList [PFloat 1, PFloat 2])]])])))
     = \<lparr>outcome = Inr (PList [PFloat 1, PFloat 2]), sleeps = [2, 4], attempts = 3\<rparr>
   \<and> groq_embed_one 3
       (\<lambda>k. if k < 3 then Response 429 None
            else Response 200 (Some (PDict [(''data'', PList [PDict [(''embedding'', PList [PFloat 1, PFloat 2])]])])))
     = \<lparr>outcome = Inl (HTTPError 429), sleeps = [], attempts = 1\<rparr>"
  using groq_retry_then_ok
    [of "\<lambda>k. if k < 3 then Response 503 None
            else Response 200 (Some (PDict [(''data'', PList [PDict [(''embedding'', PList [PFloat 1, PFloat 2])]])]))"
        "PDict [(''data'', PList [PDict [(''embedding'', PList [PFloat 1, PFloat 2])]])]"
        "PList [PFloat 1, PFloat 2]" None 3]
    groq_retry_then_ok
    [of "\<lambda>k. if k < 3 then Response 429 None
            else Response 200 (Some (PDict [(''data'', PList [PDict [(''embedding'', PList [PFloat 1, PFloat 2])]])]))"
        "PNone" "PNone" None 3]
  by (simp add: parse_embedding_def from_data_list_def py_or_def dict_get_def)

text \<open>
  C3, as stated, fails beyond 34 attempts: the backoff \<open>2 ** 34\<close> is more than
  \<open>time.sleep\<close> accepts. With \<open>MAX_RETRIES = 40\<close> and a network error at every request,
  the call ends at the 34th request with the \<open>OverflowError\<close> of \<open>time.sleep\<close>, not at
  the 40th with the last network error.
\<close>

theorem groq_backoff_counterexample:
  "groq_embed_one 40 (\<lambda>k. NetworkError)
     = \<lparr>outcome = Inl OverflowError, sleeps = map (\<lambda>k. 2 ^ k) [1..<34], attempts = 34\<rparr>"
proof -
  have "\<forall>k. 0 < k \<and> k < 34 \<longrightarrow> \<not> stops 40 (\<lambda>k. NetworkError) k"
    by (simp add: stops_def try_body_def)
  moreover have "\<not> stops 40 (\<lambda>k. NetworkError) 34"
    by (simp add: stops_def try_body_def)
  ultimately show ?thesis
    using groq_loop_run[of 0 34 40 "\<lambda>k. NetworkError" "[]"]
    by (simp add: groq_embed_one_def)
qed

text \<open>
  C3, amended: let the requests before the \<open>n\<close>-th fail with a network error or a status
  from 500 to 599, with \<open>n\<close> at most \<open>MAX_RETRIES\<close> (at most 1 when \<open>MAX_RETRIES\<close> is
  below 1: the first request is always made) and at most 34, the last attempt whose
  backoffs before it \<open>time.sleep\<close> accepts. The call has then slept \<open>2 ^ k\<close> seconds
  after each failed request \<open>k\<close>, and: a status from 400 to 499 at the \<open>n\<close>-th request is
  raised with no further request; an embedding at the \<open>n\<close>-th request is returned; a
  failure of the same kind at the last request allowed is raised; and a 34th failure
  that is to be retried ends the call with the \<open>OverflowError\<close> of \<open>time.sleep\<close>.
\<close>

theorem groq_retry_policy:
  assumes "1 \<le> n" and "\<forall>k. 1 \<le> k \<and> k < n \<longrightarrow> transient (post k)"
    and "int n \<le> max 1 MAX_RETRIES" and "n \<le> 34"
  shows "(post n = Response status body \<and> 400 \<le> status \<and> status < 500 \<longrightarrow>
      groq_embed_one MAX_RETRIES post
        = \<lparr>outcome = Inl (HTTPError status), sleeps = map (\<lambda>k. 2 ^ k) [1..<n], attempts = n\<rparr>)
   \<and> (try_body (post n) = Inr emb \<longrightarrow>
        groq_embed_one MAX_RETRIES post
          = \<lparr>outcome = Inr emb, sleeps = map (\<lambda>k. 2 ^ k) [1..<n], attempts = n\<rparr>)
   \<and> (transient (post n) \<and> int n = max 1 MAX_RETRIES \<longrightarrow>
        (\<exists>e. try_body (post n) = Inl e
           \<and> groq_embed_one MAX_RETRIES post
               = \<lparr>outcome = Inl e, sleeps = map (\<lambda>k. 2 ^ k) [1..<n], attempts = n\<rparr>))
   \<and> (transient (post n) \<and> n = 34 \<and> int n < MAX_RETRIES \<longrightarrow>
        groq_embed_one MAX_RETRIES post
          = \<lparr>outcome = Inl OverflowError, sleeps = map (\<lambda>k. 2 ^ k) [1..<n], attempts = n\<rparr>)"
proof (intro conjI impI)
  assume a: "post n = Response status body \<and> 400 \<le> status \<and> status < 500"
  then have e: "try_body (post n) = Inl (HTTPError status)"
    by (simp add: try_body_def)
  then have "stops MAX_RETRIES post n"
    using a by (simp add: stops_def)
  from groq_embed_one_run[OF assms this] e
  show "groq_embed_one MAX_RETRIES post
        = \<lparr>outcome = Inl (HTTPError status), sleeps = map (\<lambda>k. 2 ^ k) [1..<n], attempts = n\<rparr>"
    by simp
next
  assume e: "try_body (post n) = Inr emb"
  then have "stops MAX_RETRIES post n"
    by (simp add: stops_def)
  from groq_embed_one_run[OF assms this] e
  show "groq_embed_one MAX_RETRIES post
          = \<lparr>outcome = Inr emb, sleeps = map (\<lambda>k. 2 ^ k) [1..<n], attempts = n\<rparr>"
    by simp
next
  assume a: "transient (post n) \<and> int n = max 1 MAX_RETRIES"
  then obtain e where e: "try_body (post n) = Inl e"
    using transient_fails by blast
  have "MAX_RETRIES \<le> int n"
    using a by linarith
  then have "stops MAX_RETRIES post n"
    using e by (simp add: stops_def)
  from groq_embed_one_run[OF assms this] e
  show "\<exists>e. try_body (post n) = Inl e
           \<and> groq_embed_one MAX_RETRIES post
               = \<lparr>outcome = Inl e, sleeps = map (\<lambda>k. 2 ^ k) [1..<n], attempts = n\<rparr>"
    by simp
next
  assume a: "transient (post n) \<and> n = 34 \<and> int n < MAX_RETRIES"
  then have ns: "\<not> stops MAX_RETRIES post n"
    using transient_continues[of post n MAX_RETRIES] by blast
  have "\<forall>k. 0 < k \<and> k < n \<longrightarrow> \<not> stops MAX_RETRIES post k"
  proof (intro allI impI)
    fix k
    assume k: "0 < k \<and> k < n"
    then have "int k < MAX_RETRIES"
      using a by linarith
    moreover have "transient (post k)"
      using k assms(2) by simp
    ultimately show "\<not> stops MAX_RETRIES post k"
      by (simp add: transient_continues)
  qed
  from groq_loop_run[OF _ assms(4) this, of "[]"] assms(1) ns a
  show "groq_embed_one MAX_RETRIES post
          = \<lparr>outcome = Inl OverflowError, sleeps = map (\<lambda>k. 2 ^ k) [1..<n], attempts = n\<rparr>"
    by (simp add: groq_embed_one_def)
qed

text \<open>
  C3, amended, at four runs: a network error, a 503 and then a 404, with five attempts
  allowed; a 500 and then an embedding; three network errors with three attempts allowed;
  and network errors throughout with forty attempts allowed.
\<close>

theorem groq_retry_policy_witness:
  "transient NetworkError \<and> transient (Response 503 None)
   \<and> groq_embed_one 5
       (\<lambda>k. if k = 1 then NetworkError else if k = 2 then Response 503 None else Response 404 None)
     = \<lparr>outcome = Inl (HTTPError 404), sleeps = [2, 4], attempts = 3\<rparr>
   \<and> groq_embed_one 3
       (\<lambda>k. if k < 2 then Response 500 None
            else Response 200 (Some (PDict [(''embedding'', PList [PFloat 1])])))
     = \<lparr>outcome = Inr (PList [PFloat 1]), sleeps = [2], attempts = 2\<rparr>
   \<and> groq_embed_one 3 (\<lambda>k. NetworkError)
     = \<lparr>outcome = Inl ConnectionError, sleeps = [2, 4], attempts = 3\<rparr>
   \<and> attempts (groq_embed_one 41 (\<lambda>k. NetworkError)) = 34
   \<and> outcome (groq_embed_one 41 (\<lambda>k. NetworkError)) = Inl OverflowError"
proof -
  have u: "[Suc 0..<3] = [Suc 0, 2]" "[Suc 0..<2] = [Suc 0]"
    by (simp_all add: upt_rec)
  have ha: "\<forall>k. 1 \<le> k \<and> k < (3::nat) \<longrightarrow>
       transient (if k = 1 then NetworkError else if k = 2 then Response 503 None else Response 404 None)"
  proof (intro allI impI)
    fix k :: nat
    assume "1 \<le> k \<and> k < 3"
    then have "k = 1 \<or> k = 2"
      by linarith
    then show "transient (if k = 1 then NetworkError else if k = 2 then Response 503 None else Response 404 None)"
      by auto
  qed
  have "groq_embed_one 5
       (\<lambda>k. if k = 1 then NetworkError else if k = 2 then Response 503 None else Response 404 None)
     = \<lparr>outcome = Inl (HTTPError 404), sleeps = map (\<lambda>k. 2 ^ k) [1..<3], attempts = 3\<rparr>"
    using groq_retry_policy[OF _ ha, of 5 404 None PNone] by simp
  then have a: "groq_embed_one 5
       (\<lambda>k. if k = 1 then NetworkError else if k = 2 then Response 503 None else Response 404 None)
     = \<lparr>outcome = Inl (HTTPError 404), sleeps = [2, 4], attempts = 3\<rparr>"
    by (simp add: u)
  have hb: "\<forall>k. 1 \<le> k \<and> k < (2::nat) \<longrightarrow>
       transient (if k < 2 then Response 500 None
            else Response 200 (Some (PDict [(''embedding'', PList [PFloat 1])])))"
    by simp
  have tb: "try_body (Response 200 (Some (PDict [(''embedding'', PList [PFloat 1])]))) = Inr (PList [PFloat 1])"
    by (simp add: try_body_def parse_embedding_def from_data_list_def)
  have "groq_embed_one 3
       (\<lambda>k. if k < 2 then Response 500 None
            else Response 200 (Some (PDict [(''embedding'', PList [PFloat 1])])))
     = \<lparr>outcome = Inr (PList [PFloat 1]), sleeps = map (\<lambda>k. 2 ^ k) [1..<2], attempts = 2\<rparr>"
    using groq_retry_policy[OF _ hb, of 3 0 None "PList [PFloat 1]"] tb by simp
  then have b: "groq_embed_one 3
       (\<lambda>k. if k < 2 then Response 500 None
            else Response 200 (Some (PDict [(''embedding'', PList [PFloat 1])])))
     = \<lparr>outcome = Inr (PList [PFloat 1]), sleeps = [2], attempts = 2\<rparr>"
    by (simp add: u)
  have hc: "\<forall>k. 1 \<le> k \<and> k < (3::nat) \<longrightarrow> transient NetworkError"
    by simp
  have "groq_embed_one 3 (\<lambda>k. NetworkError)
     = \<lparr>outcome = Inl ConnectionError, sleeps = map (\<lambda>k. 2 ^ k) [1..<3], attempts = 3\<rparr>"
    using groq_retry_policy[OF _ hc, of 3 0 None PNone] by (simp add: try_body_def)
  then have c: "groq_embed_one 3 (\<lambda>k. NetworkError)
     = \<lparr>outcome = Inl ConnectionError, sleeps = [2, 4], attempts = 3\<rparr>"
    by (simp add: u)
  have hd: "\<forall>k. 1 \<le> k \<and> k < (34::nat) \<longrightarrow> transient NetworkError"
    by simp
  have d: "groq_embed_one 41 (\<lambda>k. NetworkError)
     = \<lparr>outcome = Inl OverflowError, sleeps = map (\<lambda>k. 2 ^ k) [1..<34], attempts = 34\<rparr>"
    using groq_retry_policy[OF _ hd, of 41 0 None PNone] by simp
  from a b c show ?thesis
    by (simp add: d)
qed

text \<open>
  Beside C4, line 69 goes against the docstring of \<open>groq_embed_one\<close>, \<open>Returns
  list[float]\<close>: for a first element of \<open>data\<close> that has no \<open>embedding\<close>, the call returns
  this element, a dict.
\<close>

theorem groq_first_element_returned:
  "groq_embed_one 3 (\<lambda>k. Response 200 (Some (PDict [(''data'', PList [PDict [(''index'', PInt 0)]])])))
     = \<lparr>outcome = Inr (PDict [(''index'', PInt 0)]), sleeps = [], attempts = 1\<rparr>"
  by (simp add: groq_loop.simps groq_defs)




section \<open>Properties of the uploader\<close>

lemma derived_name_differs: "INDEX_NAME @ ''-d'' @ show_int dimen \<noteq> INDEX_NAME"
  by simp






end
